theory Spec2Isabelle
  imports Main "HOL-Library.Log_Nat" "HOL-Library.Code_Target_Nat"
begin

section \<open>JavaScript values used by the extraction engine\<close>

subsection \<open>Strings\<close>

text \<open>
  A JavaScript string is a sequence of UTF-16 code units. Literals of the source are
  written \<open>u16 ''...''\<close>; the prime sign U+2032 of the tissue-Doppler patterns is the
  code unit \<open>8242\<close>.
\<close>

type_synonym jsstring = "nat list"

definition u16 :: "string \<Rightarrow> jsstring" where
  "u16 s = map of_char s"

subsection \<open>Numbers\<close>

text \<open>
  A Number is an IEEE 754 binary64 value: NaN, an infinity, or a finite value given by
  its sign (\<open>True\<close> for negative) and its exact magnitude, so that \<open>Fin True 0\<close> is the
  negative zero.
\<close>

datatype jsnum = NaN | Infinity bool | Fin bool rat

text \<open>Rounding to the nearest integer, ties to the even one.\<close>

definition rnd_even :: "rat \<Rightarrow> int" where
  "rnd_even x =
     (let f = \<lfloor>x\<rfloor>; r = x - of_int f
      in if r < 1 / 2 then f else if 1 / 2 < r then f + 1
         else if even f then f else f + 1)"

text \<open>
  \<open>to_double s q\<close> is the binary64 value nearest to the exact magnitude \<open>q \<ge> 0\<close>
  with sign \<open>s\<close> (roundTiesToEven): \<open>fl\<close> is \<open>\<lfloor>log\<^sub>2 q\<rfloor>\<close>, \<open>e\<close> the exponent of the unit in the
  last place (53 significant bits, subnormal below \<open>2\<^sup>-\<^sup>1\<^sup>0\<^sup>2\<^sup>2\<close>), \<open>m\<close> the rounded
  significand, and a result \<open>m \<times> 2\<^sup>e\<close> of \<open>2\<^sup>1\<^sup>0\<^sup>2\<^sup>4\<close> or more overflows to the infinity.
\<close>

definition to_double :: "bool \<Rightarrow> rat \<Rightarrow> jsnum" where
  "to_double s q =
     (if q = 0 then Fin s 0
      else
        let fl = (if 1 \<le> q then bitlen \<lfloor>q\<rfloor> - 1 else - bitlen (\<lceil>1 / q\<rceil> - 1));
            e = max fl (- 1022) - 52;
            m = (if 0 \<le> e then rnd_even (q / of_int (2 ^ nat e))
                 else rnd_even (q * of_int (2 ^ nat (- e))))
        in if 1024 < bitlen m + e then Infinity s
           else Fin s (if 0 \<le> e then of_int (m * 2 ^ nat e)
                       else of_int m / of_int (2 ^ nat (- e))))"

text \<open>The exact signed value of a finite number.\<close>

definition signed :: "bool \<Rightarrow> rat \<Rightarrow> rat" where
  "signed s a = (if s then - a else a)"

text \<open>The operators \<open>*\<close>, \<open>/\<close> and \<open>+\<close> on Numbers.\<close>

fun js_mul :: "jsnum \<Rightarrow> jsnum \<Rightarrow> jsnum" where
  "js_mul NaN _ = NaN"
| "js_mul _ NaN = NaN"
| "js_mul (Infinity s) (Infinity t) = Infinity (s \<noteq> t)"
| "js_mul (Infinity s) (Fin t b) = (if b = 0 then NaN else Infinity (s \<noteq> t))"
| "js_mul (Fin s a) (Infinity t) = (if a = 0 then NaN else Infinity (s \<noteq> t))"
| "js_mul (Fin s a) (Fin t b) = to_double (s \<noteq> t) (a * b)"

fun js_div :: "jsnum \<Rightarrow> jsnum \<Rightarrow> jsnum" where
  "js_div NaN _ = NaN"
| "js_div _ NaN = NaN"
| "js_div (Infinity s) (Infinity t) = NaN"
| "js_div (Infinity s) (Fin t b) = Infinity (s \<noteq> t)"
| "js_div (Fin s a) (Infinity t) = Fin (s \<noteq> t) 0"
| "js_div (Fin s a) (Fin t b) =
     (if b = 0 then (if a = 0 then NaN else Infinity (s \<noteq> t))
      else to_double (s \<noteq> t) (a / b))"

fun js_add :: "jsnum \<Rightarrow> jsnum \<Rightarrow> jsnum" where
  "js_add NaN _ = NaN"
| "js_add _ NaN = NaN"
| "js_add (Infinity s) (Infinity t) = (if s = t then Infinity s else NaN)"
| "js_add (Infinity s) (Fin t b) = Infinity s"
| "js_add (Fin s a) (Infinity t) = Infinity t"
| "js_add (Fin s a) (Fin t b) =
     (let v = signed s a + signed t b
      in if v = 0 then Fin (s \<and> t) 0 else to_double (v < 0) \<bar>v\<bar>)"

text \<open>\<open>x !== 0\<close> and \<open>Number.isNaN(x)\<close> on a Number: both zeros are equal to \<open>0\<close>.\<close>

fun is_zero :: "jsnum \<Rightarrow> bool" where
  "is_zero (Fin s a) = (a = 0)"
| "is_zero _ = False"

fun isNaN :: "jsnum \<Rightarrow> bool" where
  "isNaN NaN = True"
| "isNaN _ = False"

text \<open>The integer literals of the source (\<open>2\<close>, \<open>4\<close>, \<open>100\<close>), which are exact.\<close>

definition lit_num :: "nat \<Rightarrow> jsnum" where
  "lit_num n = Fin False (of_nat n)"

subsection \<open>Values and exceptions\<close>

text \<open>
  The values a result bag holds are numbers and (for the rhythm) strings. \<open>null\<close> and
  \<open>undefined\<close> are the \<open>None\<close> of an option: every test of the source on them is
  \<open>== null\<close> or \<open>!= null\<close>, which does not tell the two apart.
\<close>

datatype jsval = Num jsnum | Str jsstring

datatype exn = RangeError

section \<open>Regular expressions\<close>

text \<open>
  The recognition rules are regular-expression literals run by \<open>RegExp.prototype.exec\<close>.
  The syntax tree below covers the constructs the literals of the source use; the matcher
  is the backtracking matcher of the language: each construct takes the continuation that
  matches the rest of the pattern, and alternatives are tried in priority order.
\<close>

datatype citem = Ch char | Cu nat | Rg char char

datatype atom =
    Cls bool "citem list"   \<comment> \<open>\<open>[...]\<close>, or \<open>[^...]\<close> when the flag is set\<close>
  | Space                   \<comment> \<open>\<open>\s\<close>\<close>
  | AnyChar                 \<comment> \<open>\<open>.\<close>\<close>

datatype rx =
    Eps
  | Lit string                        \<comment> \<open>a run of literal characters\<close>
  | One atom
  | Rep atom nat "nat option" bool    \<comment> \<open>\<open>a{min,max}\<close>; greedy when the flag is set\<close>
  | Opt rx                            \<comment> \<open>\<open>r?\<close>\<close>
  | Seq rx rx
  | Alt rx rx
  | Grp nat rx                        \<comment> \<open>capturing group number \<open>n\<close>\<close>
  | WordB                             \<comment> \<open>\<open>\b\<close>\<close>
  | Ahead rx                          \<comment> \<open>\<open>(?=r)\<close>\<close>

definition seqs :: "rx list \<Rightarrow> rx" where
  "seqs rs = foldr Seq rs Eps"

definition alts :: "rx \<Rightarrow> rx list \<Rightarrow> rx" where
  "alts r rs = foldl Alt r rs"

text \<open>
  Canonicalize for the \<open>i\<close> flag without the \<open>u\<close> flag: a code unit is compared by its
  upper-case form, and a code unit of 128 or more is never identified with an ASCII one.
  The patterns of the source hold ASCII characters and the caseless U+2032 only, so
  upper-casing \<open>a\<close> to \<open>z\<close> decides every comparison with them.
\<close>

definition canon :: "bool \<Rightarrow> nat \<Rightarrow> nat" where
  "canon ic c = (if ic \<and> 97 \<le> c \<and> c \<le> 122 then c - 32 else c)"

definition lower :: "nat \<Rightarrow> nat" where
  "lower c = (if 65 \<le> c \<and> c \<le> 90 then c + 32 else c)"

fun citem_match :: "bool \<Rightarrow> citem \<Rightarrow> nat \<Rightarrow> bool" where
  "citem_match ic (Ch a) c = (canon ic (of_char a) = canon ic c)"
| "citem_match ic (Cu a) c = (canon ic a = canon ic c)"
| "citem_match ic (Rg a b) c =
     ((of_char a \<le> c \<and> c \<le> of_char b) \<or>
      (ic \<and> ((of_char a \<le> canon ic c \<and> canon ic c \<le> of_char b) \<or>
             (of_char a \<le> lower c \<and> lower c \<le> of_char b))))"

text \<open>White space and line terminators (\<open>\s\<close>, and what \<open>trim\<close> removes).\<close>

definition is_space :: "nat \<Rightarrow> bool" where
  "is_space c \<longleftrightarrow>
     (9 \<le> c \<and> c \<le> 13) \<or> c = 32 \<or> c = 160 \<or> c = 5760 \<or> (8192 \<le> c \<and> c \<le> 8202) \<or>
     c = 8232 \<or> c = 8233 \<or> c = 8239 \<or> c = 8287 \<or> c = 12288 \<or> c = 65279"

definition is_line_terminator :: "nat \<Rightarrow> bool" where
  "is_line_terminator c \<longleftrightarrow> c = 10 \<or> c = 13 \<or> c = 8232 \<or> c = 8233"

text \<open>The word characters of \<open>\b\<close>: \<open>[A-Za-z0-9_]\<close>.\<close>

definition is_word :: "nat \<Rightarrow> bool" where
  "is_word c \<longleftrightarrow> (48 \<le> c \<and> c \<le> 57) \<or> (65 \<le> c \<and> c \<le> 90) \<or> c = 95 \<or> (97 \<le> c \<and> c \<le> 122)"

fun atom_match :: "bool \<Rightarrow> atom \<Rightarrow> nat \<Rightarrow> bool" where
  "atom_match ic (Cls neg items) c = (list_ex (\<lambda>i. citem_match ic i c) items \<noteq> neg)"
| "atom_match ic Space c = is_space c"
| "atom_match ic AnyChar c = (\<not> is_line_terminator c)"

text \<open>
  The state of a match: the index reached, the code unit before it, the input from the
  index on, and the captures made so far.
\<close>

record mstate =
  pos :: nat
  prev :: "nat option"
  rest :: jsstring
  caps :: "nat \<Rightarrow> jsstring option"

definition advance :: "mstate \<Rightarrow> mstate" where
  "advance s = (case rest s of [] \<Rightarrow> s
                | c # cs \<Rightarrow> s\<lparr>pos := Suc (pos s), prev := Some c, rest := cs\<rparr>)"

type_synonym cont = "mstate \<Rightarrow> mstate option"

fun lit_match :: "bool \<Rightarrow> string \<Rightarrow> cont \<Rightarrow> mstate \<Rightarrow> mstate option" where
  "lit_match ic [] k s = k s"
| "lit_match ic (a # as) k s =
     (case rest s of [] \<Rightarrow> None
      | c # cs \<Rightarrow> if canon ic (of_char a) = canon ic c then lit_match ic as k (advance s)
                  else None)"

definition dec :: "nat option \<Rightarrow> nat option" where
  "dec mx = map_option (\<lambda>n. n - 1) mx"

text \<open>
  A quantified single-character atom \<open>a{mn,mx}\<close>, greedy (\<open>g\<close>) or lazy. The last
  argument is always the rest of the input at the state.
\<close>

fun rep_from :: "bool \<Rightarrow> atom \<Rightarrow> bool \<Rightarrow> nat \<Rightarrow> nat option \<Rightarrow> cont \<Rightarrow> mstate \<Rightarrow> jsstring \<Rightarrow> mstate option" where
  "rep_from ic a g mn mx k s [] = (if mn = 0 then k s else None)"
| "rep_from ic a g mn mx k s (c # cs) =
     (if mx = Some 0 then k s
      else if \<not> atom_match ic a c then (if mn = 0 then k s else None)
      else if 0 < mn then rep_from ic a g (mn - 1) (dec mx) k (advance s) cs
      else if g then
        (case rep_from ic a g 0 (dec mx) k (advance s) cs of
           Some r \<Rightarrow> Some r | None \<Rightarrow> k s)
      else
        (case k s of
           Some r \<Rightarrow> Some r | None \<Rightarrow> rep_from ic a g 0 (dec mx) k (advance s) cs))"

definition rep_match :: "bool \<Rightarrow> atom \<Rightarrow> bool \<Rightarrow> nat \<Rightarrow> nat option \<Rightarrow> cont \<Rightarrow> mstate \<Rightarrow> mstate option" where
  "rep_match ic a g mn mx k s = rep_from ic a g mn mx k s (rest s)"

definition is_word_opt :: "nat option \<Rightarrow> bool" where
  "is_word_opt c = (case c of None \<Rightarrow> False | Some x \<Rightarrow> is_word x)"

definition next_cu :: "mstate \<Rightarrow> nat option" where
  "next_cu s = (case rest s of [] \<Rightarrow> None | c # cs \<Rightarrow> Some c)"

primrec rx_match :: "bool \<Rightarrow> rx \<Rightarrow> cont \<Rightarrow> mstate \<Rightarrow> mstate option" where
  "rx_match ic Eps k s = k s"
| "rx_match ic (Lit as) k s = lit_match ic as k s"
| "rx_match ic (One a) k s =
     (case rest s of [] \<Rightarrow> None
      | c # cs \<Rightarrow> if atom_match ic a c then k (advance s) else None)"
| "rx_match ic (Rep a mn mx g) k s = rep_match ic a g mn mx k s"
| "rx_match ic (Opt r) k s =
     (case rx_match ic r k s of Some x \<Rightarrow> Some x | None \<Rightarrow> k s)"
| "rx_match ic (Seq r1 r2) k s = rx_match ic r1 (rx_match ic r2 k) s"
| "rx_match ic (Alt r1 r2) k s =
     (case rx_match ic r1 k s of Some x \<Rightarrow> Some x | None \<Rightarrow> rx_match ic r2 k s)"
| "rx_match ic (Grp n r) k s =
     rx_match ic r (\<lambda>s'. k (s'\<lparr>caps := (caps s')(n := Some (take (pos s' - pos s) (rest s)))\<rparr>)) s"
| "rx_match ic WordB k s =
     (if is_word_opt (prev s) \<noteq> is_word_opt (next_cu s) then k s else None)"
| "rx_match ic (Ahead r) k s =
     (case rx_match ic r Some s of None \<Rightarrow> None | Some s' \<Rightarrow> k (s\<lparr>caps := caps s'\<rparr>))"

text \<open>
  A RegExp object: its pattern, its flags and the mutable \<open>lastIndex\<close>. The result of a
  successful \<open>exec\<close> is the array \<open>m\<close>: \<open>m[0]\<close> the matched text, \<open>m[1]\<close> and \<open>m[2]\<close> the
  captures (\<open>undefined\<close> when the group took no part or does not exist).
\<close>

record regexp =
  source :: rx
  ignoreCase :: bool
  global :: bool
  sticky :: bool
  lastIndex :: nat

record rmatch =
  m0 :: jsstring
  m1 :: "jsstring option"
  m2 :: "jsstring option"

text \<open>The search of \<open>exec\<close>: the first index, from \<open>i\<close> on, at which the pattern matches.\<close>

fun search :: "bool \<Rightarrow> rx \<Rightarrow> bool \<Rightarrow> nat \<Rightarrow> nat option \<Rightarrow> jsstring \<Rightarrow> (rmatch \<times> nat) option" where
  "search ic r y i p cs =
     (case rx_match ic r Some \<lparr>pos = i, prev = p, rest = cs, caps = (\<lambda>n. None)\<rparr> of
        Some s' \<Rightarrow> Some (\<lparr>m0 = take (pos s' - i) cs, m1 = caps s' 1, m2 = caps s' 2\<rparr>, pos s')
      | None \<Rightarrow>
          if y then None
          else (case cs of [] \<Rightarrow> None | c # cs' \<Rightarrow> search ic r y (Suc i) (Some c) cs'))"

text \<open>
  \<open>RegExp.prototype.exec\<close>: \<open>lastIndex\<close> is read and written only under the \<open>g\<close> or \<open>y\<close>
  flag. The updated object is returned with the result.
\<close>

definition RegExp_exec :: "regexp \<Rightarrow> jsstring \<Rightarrow> rmatch option \<times> regexp" where
  "RegExp_exec R S =
     (let stateful = (global R \<or> sticky R);
          i = (if stateful then lastIndex R else 0)
      in if length S < i then (None, if stateful then R\<lparr>lastIndex := 0\<rparr> else R)
         else
           (case search (ignoreCase R) (source R) (sticky R) i
                   (if i = 0 then None else Some (S ! (i - 1))) (drop i S) of
              None \<Rightarrow> (None, if stateful then R\<lparr>lastIndex := 0\<rparr> else R)
            | Some (m, e) \<Rightarrow> (Some m, if stateful then R\<lparr>lastIndex := e\<rparr> else R)))"

text \<open>A regular-expression literal with the flags of the source: \<open>/r/i\<close> and \<open>/r/\<close>.\<close>

definition rxi :: "rx list \<Rightarrow> regexp" where
  "rxi rs = \<lparr>source = seqs rs, ignoreCase = True, global = False, sticky = False, lastIndex = 0\<rparr>"

definition rxp :: "rx \<Rightarrow> regexp" where
  "rxp r = \<lparr>source = r, ignoreCase = False, global = False, sticky = False, lastIndex = 0\<rparr>"

text \<open>\<open>/r/.test(s)\<close> on a literal evaluated at the call: the object is fresh and dropped.\<close>

definition RegExp_test :: "regexp \<Rightarrow> jsstring \<Rightarrow> bool" where
  "RegExp_test R S = (fst (RegExp_exec R S) \<noteq> None)"

section \<open>Helpers of the source\<close>

text \<open>
  \<open>Number(s)\<close> for a string over the characters \<open>0-9 . + -\<close>, the only strings \<open>toNum\<close>
  passes to it: the empty string is \<open>0\<close>, a decimal literal with an optional sign is its
  value rounded to binary64, and everything else is NaN. (White space, \<open>Infinity\<close>,
  exponents and radix prefixes need characters outside this alphabet.)
\<close>

definition is_digit :: "nat \<Rightarrow> bool" where
  "is_digit c \<longleftrightarrow> 48 \<le> c \<and> c \<le> 57"

definition digits_val :: "jsstring \<Rightarrow> nat" where
  "digits_val ds = foldl (\<lambda>a c. 10 * a + (c - 48)) 0 ds"

definition Number_dec :: "jsstring \<Rightarrow> jsnum" where
  "Number_dec s =
     (if s = [] then Fin False 0
      else
        let neg = (hd s = 45);
            body = (if hd s = 45 \<or> hd s = 43 then tl s else s);
            ip = takeWhile is_digit body;
            r = dropWhile is_digit body
        in case r of
             [] \<Rightarrow> if ip = [] then NaN else to_double neg (of_nat (digits_val ip))
           | c # fp \<Rightarrow>
               if c = 46 \<and> list_all is_digit fp \<and> ip @ fp \<noteq> []
               then to_double neg (of_nat (digits_val (ip @ fp)) / 10 ^ length fp)
               else NaN)"

text \<open>
  \<^verbatim>\<open>const toNum = (s) => (s==null) ? null : Number(String(s).replace(/[^0-9.+-]/g, ""));\<close>
\<close>

definition toNum :: "jsstring option \<Rightarrow> jsnum option" where
  "toNum s = (case s of None \<Rightarrow> None
              | Some str \<Rightarrow>
                  Some (Number_dec (filter (\<lambda>c. is_digit c \<or> c = 46 \<or> c = 43 \<or> c = 45) str)))"

text \<open>
  The value of \<open>+x.toFixed(d)\<close> for \<open>d \<le> 100\<close>: \<open>toFixed\<close> prints an infinity or a
  magnitude of \<open>10\<^sup>2\<^sup>1\<close> or more as \<open>String(x)\<close>, which reads back as \<open>x\<close>; otherwise it
  prints \<open>n / 10\<^sup>d\<close> for the integer \<open>n\<close> nearest to \<open>|x| \<times> 10\<^sup>d\<close> (the larger of two),
  after a minus sign when \<open>x < 0\<close>, and the unary plus reads the numeral back.
\<close>

fun toFixed_num :: "jsnum \<Rightarrow> nat \<Rightarrow> jsnum" where
  "toFixed_num NaN d = NaN"
| "toFixed_num (Infinity s) d = Infinity s"
| "toFixed_num (Fin s a) d =
     (if 10 ^ 21 \<le> a then Fin s a
      else to_double (s \<and> a \<noteq> 0) (of_int \<lfloor>a * 10 ^ d + 1 / 2\<rfloor> / 10 ^ d))"

text \<open>
  \<^verbatim>\<open>const round = (x, d=2) => (x==null || Number.isNaN(+x)) ? null : +(+x).toFixed(d);\<close>
  \<open>toFixed\<close> throws a RangeError for more than 100 digits.
\<close>

definition round_js :: "jsnum option \<Rightarrow> nat \<Rightarrow> exn + jsval option" where
  "round_js x d =
     (case x of None \<Rightarrow> Inr None
      | Some n \<Rightarrow>
          if isNaN n then Inr None
          else if 100 < d then Inl RangeError
          else Inr (Some (Num (toFixed_num n d))))"

text \<open>\<open>String.prototype.toLowerCase\<close> on ASCII letters, and \<open>String.prototype.trim\<close>.\<close>

definition toLowerCase :: "jsstring \<Rightarrow> jsstring" where
  "toLowerCase s = map lower s"

definition trim :: "jsstring \<Rightarrow> jsstring" where
  "trim s = rev (dropWhile is_space (rev (dropWhile is_space s)))"

section \<open>The field registry\<close>

text \<open>The keys of \<open>FIELD_SPECS\<close>, in the order of the source.\<close>

datatype fkey =
    MV_E_m_s | MV_A_m_s | EA_ratio | DT_ms
  | eprime_septal_cm_s | eprime_lateral_cm_s | eprime_avg_cm_s
  | E_over_eprime_septal | E_over_eprime_lateral | E_over_eprime_avg
  | TR_Vmax_m_s | LAVI_ml_m2 | LA_volume_ml | BSA_m2
  | HR_bpm | BP_sys | BP_dia | Rhythm
  | LA_reservoir_strain_pct | PV_SD_ratio | IVRT_ms | PASP_mmHg | RA_pressure_mmHg
  | LV_GLS_pct | LA_stiffness_index | E_over_eprime_avg_exercise | TR_Vmax_exercise_m_s

text \<open>
  The result bag: \<open>bag k = None\<close> when \<open>bag[k] == null\<close>, that is, when the key is missing
  or holds \<open>null\<close>.
\<close>

type_synonym bag = "fkey \<Rightarrow> jsval option"

text \<open>
  A field specification. The label takes no part in parsing and is left out. Every entry
  of the source has \<open>patterns\<close> and \<open>normalize\<close>, so the defaults \<open>spec.patterns||[]\<close> and
  \<open>spec.normalize||((v)=>v)\<close> are never taken; \<open>derive\<close> is optional. A function that
  throws returns \<open>Inl\<close>.
\<close>

record field_spec =
  key :: fkey
  patterns :: "regexp list"
  normalize :: "jsstring option \<Rightarrow> jsstring option \<Rightarrow> bag \<Rightarrow> rmatch \<Rightarrow> exn + jsval option"
  derive :: "(bag \<Rightarrow> exn + jsval option) option"

subsection \<open>Normalization functions\<close>

text \<open>
  \<^verbatim>\<open>
  normalize: (v, unit) => {
    const x = toNum(v);
    if (!x && x !== 0) return null;
    if (!unit || /m\/s/i.test(unit)) return round(x, 3);
    if (/cm\/s/i.test(unit)) return round(x/100, 3);
    return round(x, 3);
  }\<close>
  The normalization of \<open>MV_E_m_s\<close> and of \<open>MV_A_m_s\<close>. \<open>!x && x !== 0\<close> holds when \<open>x\<close> is
  \<open>null\<close> or NaN; \<open>!unit\<close> when the unit is \<open>undefined\<close> or empty.
\<close>

definition normalize_velocity :: "jsstring option \<Rightarrow> jsstring option \<Rightarrow> exn + jsval option" where
  "normalize_velocity v unit =
     (case toNum v of
        None \<Rightarrow> Inr None
      | Some x \<Rightarrow>
          if isNaN x then Inr None
          else if (case unit of None \<Rightarrow> True
                   | Some u \<Rightarrow> u = [] \<or> RegExp_test (rxi [Lit ''m/s'']) u)
               then round_js (Some x) 3
          else if (case unit of None \<Rightarrow> False
                   | Some u \<Rightarrow> RegExp_test (rxi [Lit ''cm/s'']) u)
               then round_js (Some (js_div x (lit_num 100))) 3
          else round_js (Some x) 3)"

text \<open>
  \<^verbatim>\<open>
  normalize: (v, unit) => {
    const x = toNum(v);
    if (!x && x !== 0) return null;
    if (!unit || /cm\/s/i.test(unit)) return round(x, 2);
    if (/m\/s/i.test(unit)) return round(x*100, 2);
    return round(x, 2);
  }\<close>
  The normalization of the three tissue-Doppler fields.
\<close>

definition normalize_eprime :: "jsstring option \<Rightarrow> jsstring option \<Rightarrow> exn + jsval option" where
  "normalize_eprime v unit =
     (case toNum v of
        None \<Rightarrow> Inr None
      | Some x \<Rightarrow>
          if isNaN x then Inr None
          else if (case unit of None \<Rightarrow> True
                   | Some u \<Rightarrow> u = [] \<or> RegExp_test (rxi [Lit ''cm/s'']) u)
               then round_js (Some x) 2
          else if (case unit of None \<Rightarrow> False
                   | Some u \<Rightarrow> RegExp_test (rxi [Lit ''m/s'']) u)
               then round_js (Some (js_mul x (lit_num 100))) 2
          else round_js (Some x) 2)"

text \<open>\<^verbatim>\<open>normalize: (v) => round(toNum(v), d)\<close> for the digits \<open>d\<close> of the field.\<close>

definition normalize_round :: "nat \<Rightarrow> jsstring option \<Rightarrow> exn + jsval option" where
  "normalize_round d v = round_js (toNum v) d"

text \<open>
  \<^verbatim>\<open>
  normalize: (v, unit, bag, all) => {
    const txt = (all && all[0] || "").toLowerCase();
    if (/atrial\s*fibrillation|afib|\baf\b/.test(txt)) return "AF";
    if (/sinus\s*rhythm|\bnsr\b/.test(txt)) return "Sinus";
    if (v) return String(v).trim();
    return null;
  }\<close>
\<close>

definition rx_ws :: rx where
  "rx_ws = Rep Space 0 None True"

definition Rhythm_normalize :: "jsstring option \<Rightarrow> rmatch \<Rightarrow> exn + jsval option" where
  "Rhythm_normalize v all =
     (let txt = toLowerCase (m0 all)
      in if RegExp_test (rxp (alts (seqs [Lit ''atrial'', rx_ws, Lit ''fibrillation''])
                                [Lit ''afib'', seqs [WordB, Lit ''af'', WordB]])) txt
         then Inr (Some (Str (u16 ''AF'')))
         else if RegExp_test (rxp (alts (seqs [Lit ''sinus'', rx_ws, Lit ''rhythm''])
                                     [seqs [WordB, Lit ''nsr'', WordB]])) txt
         then Inr (Some (Str (u16 ''Sinus'')))
         else (case v of
                 None \<Rightarrow> Inr None
               | Some s \<Rightarrow> if s = [] then Inr None else Inr (Some (Str (trim s)))))"

subsection \<open>Derivation functions\<close>

text \<open>
  Each function reads the operands from the bag. An operand is used when it is a number;
  a missing operand, and a zero where the source tests \<open>!== 0\<close>, gives \<open>null\<close>. (The
  operands are numeric fields, which never hold a string.)
\<close>

text \<open>
  \<^verbatim>\<open>
  const E = bag.MV_E_m_s, A = bag.MV_A_m_s;
  if (E != null && A != null && A !== 0) return round(E/A, 2);
  return null;\<close>
\<close>

definition EA_ratio_derive :: "bag \<Rightarrow> exn + jsval option" where
  "EA_ratio_derive bag =
     (case (bag MV_E_m_s, bag MV_A_m_s) of
        (Some (Num E), Some (Num A)) \<Rightarrow>
          if \<not> is_zero A then round_js (Some (js_div E A)) 2 else Inr None
      | _ \<Rightarrow> Inr None)"

text \<open>
  \<^verbatim>\<open>
  const s = bag.eprime_septal_cm_s, l = bag.eprime_lateral_cm_s;
  if (s != null && l != null) return round((s + l)/2, 2);
  return null;\<close>
\<close>

definition eprime_avg_cm_s_derive :: "bag \<Rightarrow> exn + jsval option" where
  "eprime_avg_cm_s_derive bag =
     (case (bag eprime_septal_cm_s, bag eprime_lateral_cm_s) of
        (Some (Num s), Some (Num l)) \<Rightarrow> round_js (Some (js_div (js_add s l) (lit_num 2))) 2
      | _ \<Rightarrow> Inr None)"

text \<open>
  \<^verbatim>\<open>
  const E_ms = bag.MV_E_m_s;
  const e_cm = bag.eprime_septal_cm_s;
  if (E_ms != null && e_cm != null && e_cm !== 0) {
    const E_cm_s = E_ms * 100;
    return round(E_cm_s / e_cm, 2);
  }
  return null;\<close>
  The body shared by the three E/e\<open>'\<close> derivations, given the operands read.
\<close>

definition E_over_eprime :: "jsval option \<Rightarrow> jsval option \<Rightarrow> exn + jsval option" where
  "E_over_eprime E_ms e_cm =
     (case (E_ms, e_cm) of
        (Some (Num E), Some (Num e)) \<Rightarrow>
          if \<not> is_zero e then round_js (Some (js_div (js_mul E (lit_num 100)) e)) 2
          else Inr None
      | _ \<Rightarrow> Inr None)"

definition E_over_eprime_septal_derive :: "bag \<Rightarrow> exn + jsval option" where
  "E_over_eprime_septal_derive bag = E_over_eprime (bag MV_E_m_s) (bag eprime_septal_cm_s)"

definition E_over_eprime_lateral_derive :: "bag \<Rightarrow> exn + jsval option" where
  "E_over_eprime_lateral_derive bag = E_over_eprime (bag MV_E_m_s) (bag eprime_lateral_cm_s)"

text \<open>
  \<^verbatim>\<open>
  const e_cm = bag.eprime_avg_cm_s ?? (bag.eprime_septal_cm_s!=null && bag.eprime_lateral_cm_s!=null
                 ? (bag.eprime_septal_cm_s + bag.eprime_lateral_cm_s)/2 : null);\<close>
\<close>

definition E_over_eprime_avg_derive :: "bag \<Rightarrow> exn + jsval option" where
  "E_over_eprime_avg_derive bag =
     E_over_eprime (bag MV_E_m_s)
       (case bag eprime_avg_cm_s of
          Some v \<Rightarrow> Some v
        | None \<Rightarrow>
            (case (bag eprime_septal_cm_s, bag eprime_lateral_cm_s) of
               (Some (Num s), Some (Num l)) \<Rightarrow> Some (Num (js_div (js_add s l) (lit_num 2)))
             | _ \<Rightarrow> None))"

text \<open>
  \<^verbatim>\<open>
  const vol = bag.LA_volume_ml, bsa = bag.BSA_m2;
  if (vol != null && bsa != null && bsa !== 0) return round(vol / bsa, 1);
  return null;\<close>
\<close>

definition LAVI_ml_m2_derive :: "bag \<Rightarrow> exn + jsval option" where
  "LAVI_ml_m2_derive bag =
     (case (bag LA_volume_ml, bag BSA_m2) of
        (Some (Num vol), Some (Num bsa)) \<Rightarrow>
          if \<not> is_zero bsa then round_js (Some (js_div vol bsa)) 1 else Inr None
      | _ \<Rightarrow> Inr None)"

text \<open>
  \<^verbatim>\<open>
  const tr = bag.TR_Vmax_m_s;
  const rap = bag.RA_pressure_mmHg;
  if (tr != null && rap != null) {
    return round(4 * tr * tr + rap, 0);
  }
  return null;\<close>
\<close>

definition PASP_mmHg_derive :: "bag \<Rightarrow> exn + jsval option" where
  "PASP_mmHg_derive bag =
     (case (bag TR_Vmax_m_s, bag RA_pressure_mmHg) of
        (Some (Num tr), Some (Num rap)) \<Rightarrow>
          round_js (Some (js_add (js_mul (js_mul (lit_num 4) tr) tr) rap)) 0
      | _ \<Rightarrow> Inr None)"

text \<open>
  \<^verbatim>\<open>
  const eOverE = bag.E_over_eprime_avg;
  const lars = bag.LA_reservoir_strain_pct;
  if (eOverE != null && lars != null && lars !== 0) return round(eOverE / lars, 2);
  return null;\<close>
\<close>

definition LA_stiffness_index_derive :: "bag \<Rightarrow> exn + jsval option" where
  "LA_stiffness_index_derive bag =
     (case (bag E_over_eprime_avg, bag LA_reservoir_strain_pct) of
        (Some (Num eOverE), Some (Num lars)) \<Rightarrow>
          if \<not> is_zero lars then round_js (Some (js_div eOverE lars)) 2 else Inr None
      | _ \<Rightarrow> Inr None)"

subsection \<open>Recognition rules\<close>

text \<open>
  Pieces that recur in the patterns: \<open>\s*\<close> is \<open>rx_ws\<close>, \<open>[:=]?\<close> is \<open>rx_sep\<close>,
  \<open>([0-9.]+)\<close> is \<open>rx_num\<close>, \<open>(-?[0-9.]+)\<close> is \<open>rx_snum\<close>, \<open>[^0-9]{0,10}\<close> is \<open>rx_gap\<close>,
  the class of the prime sign (apostrophe, U+2032, backquote, space; the U+2032 is
  written \<open>\u2032\<close> in the patterns quoted below) is \<open>rx_prime\<close>,
  \<open>(m\/s|cm\/s)?\<close> is \<open>rx_unit_m\<close>, \<open>(cm\/s|m\/s)?\<close> is \<open>rx_unit_cm\<close> and \<open>m(?:2|\^2)\<close> is
  \<open>rx_m2\<close>. Every pattern of the registry carries the flag \<open>i\<close> alone.
\<close>

definition rx_sep :: rx where
  "rx_sep = Opt (One (Cls False [Ch CHR '':'', Ch CHR ''='']))"

definition rx_num :: rx where
  "rx_num = Grp 1 (Rep (Cls False [Rg CHR ''0'' CHR ''9'', Ch CHR ''.'']) 1 None True)"

definition rx_snum :: rx where
  "rx_snum = Grp 1 (Seq (Opt (Lit ''-''))
                       (Rep (Cls False [Rg CHR ''0'' CHR ''9'', Ch CHR ''.'']) 1 None True))"

definition rx_gap :: rx where
  "rx_gap = Rep (Cls True [Rg CHR ''0'' CHR ''9'']) 0 (Some 10) True"

definition rx_prime :: rx where
  "rx_prime = One (Cls False [Ch (CHR 0x27), Cu 8242, Ch (CHR 0x60), Ch CHR '' ''])"

definition rx_unit_m :: rx where
  "rx_unit_m = Opt (Grp 2 (Alt (Lit ''m/s'') (Lit ''cm/s'')))"

definition rx_unit_cm :: rx where
  "rx_unit_cm = Opt (Grp 2 (Alt (Lit ''cm/s'') (Lit ''m/s'')))"

definition rx_m2 :: rx where
  "rx_m2 = Seq (Lit ''m'') (Alt (Lit ''2'') (Lit ''^2''))"

text \<open>
  \<^verbatim>\<open>/(?:\b(?:MV|Mitral)\s*E(?:\s*(?:peak|wave))?(?:\s*velocity)?)[^0-9]{0,10}([0-9.]+)\s*(m\/s|cm\/s)?/i\<close>
  \<^verbatim>\<open>/(?:\bE\s*wave(?:\s*velocity)?)\s*[:=]?\s*([0-9.]+)\s*(m\/s|cm\/s)?\b/i\<close>
  and the same with \<open>A\<close> for \<open>MV_A_m_s\<close>.
\<close>

definition velocity_patterns :: "string \<Rightarrow> regexp list" where
  "velocity_patterns w =
     [rxi [WordB, alts (Lit ''MV'') [Lit ''Mitral''], rx_ws, Lit w,
           Opt (Seq rx_ws (alts (Lit ''peak'') [Lit ''wave''])),
           Opt (Seq rx_ws (Lit ''velocity'')),
           rx_gap, rx_num, rx_ws, rx_unit_m],
      rxi [WordB, Lit w, rx_ws, Lit ''wave'', Opt (Seq rx_ws (Lit ''velocity'')),
           rx_ws, rx_sep, rx_ws, rx_num, rx_ws, rx_unit_m, WordB]]"

text \<open>
  \<^verbatim>\<open>/\bE\s*\/\s*A\s*(?:ratio)?\s*[:=]?\s*([0-9.]+)/i\<close>
  \<^verbatim>\<open>/\bE:?A\s*(?:ratio)?\s*[:=]?\s*([0-9.]+)/i\<close>
\<close>

definition EA_ratio_patterns :: "regexp list" where
  "EA_ratio_patterns =
     [rxi [WordB, Lit ''E'', rx_ws, Lit ''/'', rx_ws, Lit ''A'', rx_ws, Opt (Lit ''ratio''),
           rx_ws, rx_sep, rx_ws, rx_num],
      rxi [WordB, Lit ''E'', Opt (Lit '':''), Lit ''A'', rx_ws, Opt (Lit ''ratio''),
           rx_ws, rx_sep, rx_ws, rx_num]]"

text \<open>\<^verbatim>\<open>/\b(?:Deceleration\s*time|DT)\s*[:=]?\s*([0-9.]+)\s*ms\b/i\<close>\<close>

definition DT_ms_patterns :: "regexp list" where
  "DT_ms_patterns =
     [rxi [WordB, alts (seqs [Lit ''Deceleration'', rx_ws, Lit ''time'']) [Lit ''DT''],
           rx_ws, rx_sep, rx_ws, rx_num, rx_ws, Lit ''ms'', WordB]]"

text \<open>
  \<^verbatim>\<open>/\b(?:septal|medial)\s*(?:e['\u2032` ]|e-?prime)\s*[:=]?\s*([0-9.]+)\s*(cm\/s|m\/s)?\b/i\<close>
  \<^verbatim>\<open>/\be['\u2032` ](?:septal|medial)\s*[:=]?\s*([0-9.]+)\s*(cm\/s|m\/s)?\b/i\<close>
  and the same with \<open>(?:lateral|lat)\<close> for the lateral wall.
\<close>

definition eprime_wall_patterns :: "rx \<Rightarrow> regexp list" where
  "eprime_wall_patterns wall =
     [rxi [WordB, wall, rx_ws,
           alts (Seq (Lit ''e'') rx_prime) [seqs [Lit ''e'', Opt (Lit ''-''), Lit ''prime'']],
           rx_ws, rx_sep, rx_ws, rx_num, rx_ws, rx_unit_cm, WordB],
      rxi [WordB, Lit ''e'', rx_prime, wall, rx_ws, rx_sep, rx_ws, rx_num, rx_ws,
           rx_unit_cm, WordB]]"

definition rx_septal :: rx where
  "rx_septal = alts (Lit ''septal'') [Lit ''medial'']"

definition rx_lateral :: rx where
  "rx_lateral = alts (Lit ''lateral'') [Lit ''lat'']"

definition rx_avg :: rx where
  "rx_avg = alts (Lit ''avg'') [Lit ''average'']"

text \<open>\<^verbatim>\<open>/\b(?:average|avg)\s*e['\u2032` ]\s*[:=]?\s*([0-9.]+)\s*(cm\/s|m\/s)?\b/i\<close>\<close>

definition eprime_avg_cm_s_patterns :: "regexp list" where
  "eprime_avg_cm_s_patterns =
     [rxi [WordB, alts (Lit ''average'') [Lit ''avg''], rx_ws, Lit ''e'', rx_prime,
           rx_ws, rx_sep, rx_ws, rx_num, rx_ws, rx_unit_cm, WordB]]"

text \<open>
  \<^verbatim>\<open>/\bE\s*\/\s*e['\u2032` ]\s*(?:septal|medial)\s*[:=]?\s*([0-9.]+)/i\<close>
  and the same with \<open>(?:lateral|lat)\<close> and with \<open>(?:avg|average)\<close>.
\<close>

definition E_over_eprime_patterns :: "rx \<Rightarrow> regexp list" where
  "E_over_eprime_patterns wall =
     [rxi [WordB, Lit ''E'', rx_ws, Lit ''/'', rx_ws, Lit ''e'', rx_prime, rx_ws, wall,
           rx_ws, rx_sep, rx_ws, rx_num]]"

text \<open>
  \<^verbatim>\<open>/\bTR\s*(?:Vmax|Vmax\.?|V max|peak\s*velocity)\s*[:=]?\s*([0-9.]+)\s*m\/s\b/i\<close>
  \<^verbatim>\<open>/\btricuspid\s*regurgitation.*?peak\s*velocity[^0-9]{0,10}([0-9.]+)\s*m\/s\b/i\<close>
\<close>

definition TR_Vmax_m_s_patterns :: "regexp list" where
  "TR_Vmax_m_s_patterns =
     [rxi [WordB, Lit ''TR'', rx_ws,
           alts (Lit ''Vmax'') [Seq (Lit ''Vmax'') (Opt (Lit ''.'')), Lit ''V max'',
                                seqs [Lit ''peak'', rx_ws, Lit ''velocity'']],
           rx_ws, rx_sep, rx_ws, rx_num, rx_ws, Lit ''m/s'', WordB],
      rxi [WordB, Lit ''tricuspid'', rx_ws, Lit ''regurgitation'', Rep AnyChar 0 None False,
           Lit ''peak'', rx_ws, Lit ''velocity'', rx_gap, rx_num, rx_ws, Lit ''m/s'', WordB]]"

text \<open>
  \<^verbatim>\<open>/\b(?:LA\s*volume\s*index|LAVI)\s*[:=]?\s*([0-9.]+)\s*(?:ml|mL)\s*\/\s*m(?:2|\^2)\b/i\<close>
\<close>

definition LAVI_ml_m2_patterns :: "regexp list" where
  "LAVI_ml_m2_patterns =
     [rxi [WordB,
           alts (seqs [Lit ''LA'', rx_ws, Lit ''volume'', rx_ws, Lit ''index'']) [Lit ''LAVI''],
           rx_ws, rx_sep, rx_ws, rx_num, rx_ws, alts (Lit ''ml'') [Lit ''mL''],
           rx_ws, Lit ''/'', rx_ws, rx_m2, WordB]]"

text \<open>\<^verbatim>\<open>/\bLA\s*volume(?:\s*\(biplane\))?\s*[:=]?\s*([0-9.]+)\s*(?:ml|mL)\b/i\<close>\<close>

definition LA_volume_ml_patterns :: "regexp list" where
  "LA_volume_ml_patterns =
     [rxi [WordB, Lit ''LA'', rx_ws, Lit ''volume'', Opt (Seq rx_ws (Lit ''(biplane)'')),
           rx_ws, rx_sep, rx_ws, rx_num, rx_ws, alts (Lit ''ml'') [Lit ''mL''], WordB]]"

text \<open>
  \<^verbatim>\<open>/\bBSA\s*[:=]?\s*([0-9.]+)\s*m(?:2|\^2)\b/i\<close>
  \<^verbatim>\<open>/\bBody\s*surface\s*area\s*[:=]?\s*([0-9.]+)\s*m(?:2|\^2)\b/i\<close>
\<close>

definition BSA_m2_patterns :: "regexp list" where
  "BSA_m2_patterns =
     [rxi [WordB, Lit ''BSA'', rx_ws, rx_sep, rx_ws, rx_num, rx_ws, rx_m2, WordB],
      rxi [WordB, Lit ''Body'', rx_ws, Lit ''surface'', rx_ws, Lit ''area'',
           rx_ws, rx_sep, rx_ws, rx_num, rx_ws, rx_m2, WordB]]"

text \<open>\<^verbatim>\<open>/\b(?:HR|Heart\s*rate)\s*[:=]?\s*([0-9.]+)\s*bpm\b/i\<close>\<close>

definition HR_bpm_patterns :: "regexp list" where
  "HR_bpm_patterns =
     [rxi [WordB, alts (Lit ''HR'') [seqs [Lit ''Heart'', rx_ws, Lit ''rate'']],
           rx_ws, rx_sep, rx_ws, rx_num, rx_ws, Lit ''bpm'', WordB]]"

text \<open>
  \<^verbatim>\<open>/\b(?:BP|Blood\s*pressure)\s*[:=]?\s*([0-9]{2,3})\s*\/\s*([0-9]{2,3})\b/i\<close>
  for \<open>BP_sys\<close> and for \<open>BP_dia\<close>.
\<close>

definition BP_patterns :: "regexp list" where
  "BP_patterns =
     [rxi [WordB, alts (Lit ''BP'') [seqs [Lit ''Blood'', rx_ws, Lit ''pressure'']],
           rx_ws, rx_sep, rx_ws,
           Grp 1 (Rep (Cls False [Rg CHR ''0'' CHR ''9'']) 2 (Some 3) True),
           rx_ws, Lit ''/'', rx_ws,
           Grp 2 (Rep (Cls False [Rg CHR ''0'' CHR ''9'']) 2 (Some 3) True), WordB]]"

text \<open>
  \<^verbatim>\<open>/\b(?:Rhythm|Underlying\s*rhythm)\s*[:=]?\s*([A-Za-z ]{2,})/i\<close>
  \<^verbatim>\<open>/\bAtrial\s*fibrillation\b/i, /\bAF(?:ib)?\b/i, /\bSinus\s*rhythm\b/i, /\bNSR\b/i\<close>
\<close>

definition Rhythm_patterns :: "regexp list" where
  "Rhythm_patterns =
     [rxi [WordB, alts (Lit ''Rhythm'') [seqs [Lit ''Underlying'', rx_ws, Lit ''rhythm'']],
           rx_ws, rx_sep, rx_ws,
           Grp 1 (Rep (Cls False [Rg CHR ''A'' CHR ''Z'', Rg CHR ''a'' CHR ''z'', Ch CHR '' ''])
                      2 None True)],
      rxi [WordB, Lit ''Atrial'', rx_ws, Lit ''fibrillation'', WordB],
      rxi [WordB, Lit ''AF'', Opt (Lit ''ib''), WordB],
      rxi [WordB, Lit ''Sinus'', rx_ws, Lit ''rhythm'', WordB],
      rxi [WordB, Lit ''NSR'', WordB]]"

text \<open>
  \<^verbatim>\<open>/\b(?:LA|Left\s*atrial)\s*(?:reservoir\s*strain|strain\s*\(reservoir\)|LASr|LARS|PALS)\s*[:=]?\s*(-?[0-9.]+)\s*%/i\<close>
  \<^verbatim>\<open>/\bLA\s*strain\s*[:=]?\s*(-?[0-9.]+)\s*%\b/i\<close>
\<close>

definition LA_reservoir_strain_pct_patterns :: "regexp list" where
  "LA_reservoir_strain_pct_patterns =
     [rxi [WordB, alts (Lit ''LA'') [seqs [Lit ''Left'', rx_ws, Lit ''atrial'']], rx_ws,
           alts (seqs [Lit ''reservoir'', rx_ws, Lit ''strain''])
                [seqs [Lit ''strain'', rx_ws, Lit ''(reservoir)''],
                 Lit ''LASr'', Lit ''LARS'', Lit ''PALS''],
           rx_ws, rx_sep, rx_ws, rx_snum, rx_ws, Lit ''%''],
      rxi [WordB, Lit ''LA'', rx_ws, Lit ''strain'', rx_ws, rx_sep, rx_ws, rx_snum, rx_ws,
           Lit ''%'', WordB]]"

text \<open>
  \<^verbatim>\<open>/\b(?:pulmonary\s*vein(?:ous)?|PV)\s*S\s*\/\s*D\s*(?:ratio)?\s*[:=]?\s*([0-9.]+)/i\<close>
  \<^verbatim>\<open>/\bS\s*\/\s*D\s*[:=]?\s*([0-9.]+)\b(?=.*pulmonary\s*vein)/i\<close>
\<close>

definition PV_SD_ratio_patterns :: "regexp list" where
  "PV_SD_ratio_patterns =
     [rxi [WordB,
           alts (seqs [Lit ''pulmonary'', rx_ws, Lit ''vein'', Opt (Lit ''ous'')]) [Lit ''PV''],
           rx_ws, Lit ''S'', rx_ws, Lit ''/'', rx_ws, Lit ''D'', rx_ws, Opt (Lit ''ratio''),
           rx_ws, rx_sep, rx_ws, rx_num],
      rxi [WordB, Lit ''S'', rx_ws, Lit ''/'', rx_ws, Lit ''D'', rx_ws, rx_sep, rx_ws, rx_num,
           WordB,
           Ahead (seqs [Rep AnyChar 0 None True, Lit ''pulmonary'', rx_ws, Lit ''vein''])]]"

text \<open>
  \<^verbatim>\<open>/\bIVRT\s*[:=]?\s*([0-9.]+)\s*ms\b/i\<close>
  \<^verbatim>\<open>/\bisovolumic\s*relaxation\s*time\s*[:=]?\s*([0-9.]+)\s*ms\b/i\<close>
\<close>

definition IVRT_ms_patterns :: "regexp list" where
  "IVRT_ms_patterns =
     [rxi [WordB, Lit ''IVRT'', rx_ws, rx_sep, rx_ws, rx_num, rx_ws, Lit ''ms'', WordB],
      rxi [WordB, Lit ''isovolumic'', rx_ws, Lit ''relaxation'', rx_ws, Lit ''time'',
           rx_ws, rx_sep, rx_ws, rx_num, rx_ws, Lit ''ms'', WordB]]"

text \<open>
  \<^verbatim>\<open>/\bPASP\s*[:=]?\s*([0-9.]+)\s*mmHg\b/i\<close>
  \<^verbatim>\<open>/\bRVSP\s*[:=]?\s*([0-9.]+)\s*mmHg\b/i\<close>
  \<^verbatim>\<open>/\bSystolic\s*PAP\s*[:=]?\s*([0-9.]+)\s*mmHg\b/i\<close>
\<close>

definition PASP_mmHg_patterns :: "regexp list" where
  "PASP_mmHg_patterns =
     [rxi [WordB, Lit ''PASP'', rx_ws, rx_sep, rx_ws, rx_num, rx_ws, Lit ''mmHg'', WordB],
      rxi [WordB, Lit ''RVSP'', rx_ws, rx_sep, rx_ws, rx_num, rx_ws, Lit ''mmHg'', WordB],
      rxi [WordB, Lit ''Systolic'', rx_ws, Lit ''PAP'', rx_ws, rx_sep, rx_ws, rx_num, rx_ws,
           Lit ''mmHg'', WordB]]"

text \<open>
  \<^verbatim>\<open>/\b(?:RA\s*pressure|RAP|Estimated\s*RA\s*pressure)\s*[:=]?\s*([0-9.]+)\s*mmHg\b/i\<close>
\<close>

definition RA_pressure_mmHg_patterns :: "regexp list" where
  "RA_pressure_mmHg_patterns =
     [rxi [WordB,
           alts (seqs [Lit ''RA'', rx_ws, Lit ''pressure''])
                [Lit ''RAP'', seqs [Lit ''Estimated'', rx_ws, Lit ''RA'', rx_ws, Lit ''pressure'']],
           rx_ws, rx_sep, rx_ws, rx_num, rx_ws, Lit ''mmHg'', WordB]]"

text \<open>
  \<^verbatim>\<open>/\b(?:LV\s*)?(?:global\s*longitudinal\s*strain|GLS)\s*[:=]?\s*(-?[0-9.]+)\s*%\b/i\<close>
\<close>

definition LV_GLS_pct_patterns :: "regexp list" where
  "LV_GLS_pct_patterns =
     [rxi [WordB, Opt (Seq (Lit ''LV'') rx_ws),
           alts (seqs [Lit ''global'', rx_ws, Lit ''longitudinal'', rx_ws, Lit ''strain''])
                [Lit ''GLS''],
           rx_ws, rx_sep, rx_ws, rx_snum, rx_ws, Lit ''%'', WordB]]"

text \<open>
  \<^verbatim>\<open>/\b(?:exercise|stress|peak)\s*E\s*\/\s*e['\u2032` ]\s*(?:avg|average)?\s*[:=]?\s*([0-9.]+)/i\<close>
\<close>

definition rx_exercise :: rx where
  "rx_exercise = alts (Lit ''exercise'') [Lit ''stress'', Lit ''peak'']"

definition E_over_eprime_avg_exercise_patterns :: "regexp list" where
  "E_over_eprime_avg_exercise_patterns =
     [rxi [WordB, rx_exercise, rx_ws, Lit ''E'', rx_ws, Lit ''/'', rx_ws, Lit ''e'', rx_prime,
           rx_ws, Opt rx_avg, rx_ws, rx_sep, rx_ws, rx_num]]"

text \<open>
  \<^verbatim>\<open>/\b(?:exercise|stress|peak)\s*TR\s*(?:Vmax|peak\s*velocity)\s*[:=]?\s*([0-9.]+)\s*m\/s\b/i\<close>
\<close>

definition TR_Vmax_exercise_m_s_patterns :: "regexp list" where
  "TR_Vmax_exercise_m_s_patterns =
     [rxi [WordB, rx_exercise, rx_ws, Lit ''TR'', rx_ws,
           alts (Lit ''Vmax'') [seqs [Lit ''peak'', rx_ws, Lit ''velocity'']],
           rx_ws, rx_sep, rx_ws, rx_num, rx_ws, Lit ''m/s'', WordB]]"

subsection \<open>\<open>FIELD_SPECS\<close>\<close>

text \<open>
  The entries in the order of the object literal, which is the order \<open>Object.entries\<close>
  visits them in.
\<close>

definition spec_of :: "fkey \<Rightarrow> regexp list \<Rightarrow> (jsstring option \<Rightarrow> jsstring option \<Rightarrow> exn + jsval option)
    \<Rightarrow> (bag \<Rightarrow> exn + jsval option) option \<Rightarrow> field_spec" where
  "spec_of k ps nz dv =
     \<lparr>key = k, patterns = ps, normalize = (\<lambda>v unit bag all. nz v unit), derive = dv\<rparr>"

definition FIELD_SPECS :: "field_spec list" where
  "FIELD_SPECS =
     [spec_of MV_E_m_s (velocity_patterns ''E'') normalize_velocity None,
      spec_of MV_A_m_s (velocity_patterns ''A'') normalize_velocity None,
      spec_of EA_ratio EA_ratio_patterns (\<lambda>v unit. normalize_round 2 v) (Some EA_ratio_derive),
      spec_of DT_ms DT_ms_patterns (\<lambda>v unit. normalize_round 0 v) None,
      spec_of eprime_septal_cm_s (eprime_wall_patterns rx_septal) normalize_eprime None,
      spec_of eprime_lateral_cm_s (eprime_wall_patterns rx_lateral) normalize_eprime None,
      spec_of eprime_avg_cm_s eprime_avg_cm_s_patterns normalize_eprime
        (Some eprime_avg_cm_s_derive),
      spec_of E_over_eprime_septal (E_over_eprime_patterns rx_septal)
        (\<lambda>v unit. normalize_round 2 v) (Some E_over_eprime_septal_derive),
      spec_of E_over_eprime_lateral (E_over_eprime_patterns rx_lateral)
        (\<lambda>v unit. normalize_round 2 v) (Some E_over_eprime_lateral_derive),
      spec_of E_over_eprime_avg (E_over_eprime_patterns rx_avg)
        (\<lambda>v unit. normalize_round 2 v) (Some E_over_eprime_avg_derive),
      spec_of TR_Vmax_m_s TR_Vmax_m_s_patterns (\<lambda>v unit. normalize_round 2 v) None,
      spec_of LAVI_ml_m2 LAVI_ml_m2_patterns (\<lambda>v unit. normalize_round 1 v)
        (Some LAVI_ml_m2_derive),
      spec_of LA_volume_ml LA_volume_ml_patterns (\<lambda>v unit. normalize_round 1 v) None,
      spec_of BSA_m2 BSA_m2_patterns (\<lambda>v unit. normalize_round 2 v) None,
      spec_of HR_bpm HR_bpm_patterns (\<lambda>v unit. normalize_round 0 v) None,
      spec_of BP_sys BP_patterns (\<lambda>v unit. Inr None) None,
      spec_of BP_dia BP_patterns (\<lambda>v unit. Inr None) None,
      \<lparr>key = Rhythm, patterns = Rhythm_patterns,
        normalize = (\<lambda>v unit bag all. Rhythm_normalize v all), derive = None\<rparr>,
      spec_of LA_reservoir_strain_pct LA_reservoir_strain_pct_patterns
        (\<lambda>v unit. normalize_round 1 v) None,
      spec_of PV_SD_ratio PV_SD_ratio_patterns (\<lambda>v unit. normalize_round 2 v) None,
      spec_of IVRT_ms IVRT_ms_patterns (\<lambda>v unit. normalize_round 0 v) None,
      spec_of PASP_mmHg PASP_mmHg_patterns (\<lambda>v unit. normalize_round 0 v)
        (Some PASP_mmHg_derive),
      spec_of RA_pressure_mmHg RA_pressure_mmHg_patterns (\<lambda>v unit. normalize_round 0 v) None,
      spec_of LV_GLS_pct LV_GLS_pct_patterns (\<lambda>v unit. normalize_round 1 v) None,
      spec_of LA_stiffness_index [] (\<lambda>v unit. normalize_round 2 v)
        (Some LA_stiffness_index_derive),
      spec_of E_over_eprime_avg_exercise E_over_eprime_avg_exercise_patterns
        (\<lambda>v unit. normalize_round 2 v) None,
      spec_of TR_Vmax_exercise_m_s TR_Vmax_exercise_m_s_patterns
        (\<lambda>v unit. normalize_round 2 v) None]"

section \<open>\<open>parseReport\<close>\<close>

text \<open>
  \<^verbatim>\<open>
  function parseReport(text){
    const bag = {};
    for (const [key, spec] of Object.entries(FIELD_SPECS)) {
      for (const rx of (spec.patterns||[])) {
        const m = rx.exec(text);
        if (m) {
          const val = (spec.normalize||((v)=>v))(m[1], m[2], bag, m);
          if (val!=null) { bag[key]=val; break; }
          if ((key==="BP_sys"||key==="BP_dia") && m[1] && m[2]) {
            bag.BP_sys=round(toNum(m[1]),0); bag.BP_dia=round(toNum(m[2]),0); break; }
        }
      }
    }
    for (const [key, spec] of Object.entries(FIELD_SPECS)) {
      if (bag[key]==null && typeof spec.derive==="function") {
        try { const dv = spec.derive(bag); if (dv!=null) bag[key]=dv; } catch {}
      }
    }
    return bag;
  }\<close>
  The RegExp objects of the registry are the only objects a call can write to (through
  \<open>exec\<close>), so the loops of the first pass return them with the bag. An exception of
  \<open>normalize\<close> or of \<open>round\<close> in the first pass leaves the function; an exception of
  \<open>derive\<close> is caught.
\<close>

definition truthy :: "jsstring option \<Rightarrow> bool" where
  "truthy s = (case s of None \<Rightarrow> False | Some str \<Rightarrow> str \<noteq> [])"

text \<open>The inner loop of the first pass, over the patterns of one field.\<close>

fun match_rules :: "field_spec \<Rightarrow> jsstring \<Rightarrow> regexp list \<Rightarrow> bag \<Rightarrow> exn + (bag \<times> regexp list)" where
  "match_rules spec t [] bag = Inr (bag, [])"
| "match_rules spec t (rx # rxs) bag =
     (let (m, rx') = RegExp_exec rx t;
          continue = (case match_rules spec t rxs bag of
                        Inl e \<Rightarrow> Inl e
                      | Inr (bag', rxs') \<Rightarrow> Inr (bag', rx' # rxs'))
      in case m of
           None \<Rightarrow> continue
         | Some mt \<Rightarrow>
             (case normalize spec (m1 mt) (m2 mt) bag mt of
                Inl e \<Rightarrow> Inl e
              | Inr (Some val) \<Rightarrow> Inr (bag(key spec \<mapsto> val), rx' # rxs)
              | Inr None \<Rightarrow>
                  if (key spec = BP_sys \<or> key spec = BP_dia) \<and> truthy (m1 mt) \<and> truthy (m2 mt)
                  then (case round_js (toNum (m1 mt)) 0 of
                          Inl e \<Rightarrow> Inl e
                        | Inr sys \<Rightarrow>
                            (case round_js (toNum (m2 mt)) 0 of
                               Inl e \<Rightarrow> Inl e
                             | Inr dia \<Rightarrow> Inr (bag(BP_sys := sys, BP_dia := dia), rx' # rxs)))
                  else continue))"

text \<open>The first pass, over the fields.\<close>

fun pass1 :: "field_spec list \<Rightarrow> jsstring \<Rightarrow> bag \<Rightarrow> exn + (bag \<times> field_spec list)" where
  "pass1 [] t bag = Inr (bag, [])"
| "pass1 (spec # specs) t bag =
     (case match_rules spec t (patterns spec) bag of
        Inl e \<Rightarrow> Inl e
      | Inr (bag', rxs') \<Rightarrow>
          (case pass1 specs t bag' of
             Inl e \<Rightarrow> Inl e
           | Inr (bag'', specs') \<Rightarrow> Inr (bag'', spec\<lparr>patterns := rxs'\<rparr> # specs')))"

text \<open>The second pass: a derivation runs for a key still absent and fills it when it
  returns a value; \<open>catch {}\<close> drops an exception.\<close>

definition derive_step :: "field_spec \<Rightarrow> bag \<Rightarrow> bag" where
  "derive_step spec bag =
     (if bag (key spec) = None then
        (case derive spec of
           None \<Rightarrow> bag
         | Some f \<Rightarrow>
             (case f bag of
                Inl e \<Rightarrow> bag
              | Inr None \<Rightarrow> bag
              | Inr (Some dv) \<Rightarrow> bag(key spec \<mapsto> dv)))
      else bag)"

fun pass2 :: "field_spec list \<Rightarrow> bag \<Rightarrow> bag" where
  "pass2 [] bag = bag"
| "pass2 (spec # specs) bag = pass2 specs (derive_step spec bag)"

text \<open>
  The engine over a registry: the bag returned, with the registry as the call leaves it.
\<close>

definition parse_with :: "field_spec list \<Rightarrow> jsstring \<Rightarrow> exn + (bag \<times> field_spec list)" where
  "parse_with specs t =
     (case pass1 specs t Map.empty of
        Inl e \<Rightarrow> Inl e
      | Inr (bag, specs') \<Rightarrow> Inr (pass2 specs' bag, specs'))"

definition parseReport :: "jsstring \<Rightarrow> exn + (bag \<times> field_spec list)" where
  "parseReport t = parse_with FIELD_SPECS t"

text \<open>
  The values of some keys in the bag a call returns, and in the bag as the first pass
  leaves it (empty lists when the call throws).
\<close>

definition parsed :: "jsstring \<Rightarrow> fkey list \<Rightarrow> jsval option list" where
  "parsed t ks = (case parseReport t of Inl e \<Rightarrow> [] | Inr (bag, specs) \<Rightarrow> map bag ks)"

definition matched :: "jsstring \<Rightarrow> fkey list \<Rightarrow> jsval option list" where
  "matched t ks =
     (case pass1 FIELD_SPECS t Map.empty of Inl e \<Rightarrow> [] | Inr (bag, specs) \<Rightarrow> map bag ks)"

section \<open>Notions used in the statements\<close>

text \<open>A RegExp object without the flags \<open>g\<close> and \<open>y\<close>.\<close>

definition stateless :: "regexp \<Rightarrow> bool" where
  "stateless R \<longleftrightarrow> \<not> global R \<and> \<not> sticky R"

text \<open>A normalization function that never throws.\<close>

definition total_normalize :: "field_spec \<Rightarrow> bool" where
  "total_normalize spec \<longleftrightarrow> (\<forall>v u b m. \<exists>r. normalize spec v u b m = Inr r)"

text \<open>The two keys of the combined blood-pressure rule.\<close>

definition bp_key :: "fkey \<Rightarrow> bool" where
  "bp_key k \<longleftrightarrow> k = BP_sys \<or> k = BP_dia"

text \<open>
  A rule that the loop of one field passes over: it does not match, or its capture
  normalizes to \<open>null\<close> and the match is not a combined blood-pressure match.
\<close>

definition rule_passes :: "field_spec \<Rightarrow> jsstring \<Rightarrow> bag \<Rightarrow> regexp \<Rightarrow> bool" where
  "rule_passes spec t bag rx =
     (case fst (RegExp_exec rx t) of
        None \<Rightarrow> True
      | Some mt \<Rightarrow>
          normalize spec (m1 mt) (m2 mt) bag mt = Inr None \<and>
          \<not> (bp_key (key spec) \<and> truthy (m1 mt) \<and> truthy (m2 mt)))"

text \<open>The bag after the rules of one field, read at some keys.\<close>

definition rules_result :: "field_spec \<Rightarrow> jsstring \<Rightarrow> bag \<Rightarrow> fkey list \<Rightarrow> jsval option list" where
  "rules_result spec t bag ks =
     (case match_rules spec t (patterns spec) bag of
        Inl e \<Rightarrow> []
      | Inr (bag', rs) \<Rightarrow> map bag' ks)"

text \<open>One step of the second pass, for a key and its derivation.\<close>

definition fill :: "fkey \<Rightarrow> (bag \<Rightarrow> exn + jsval option) \<Rightarrow> bag \<Rightarrow> bag" where
  "fill k f bag =
     derive_step \<lparr>key = k, patterns = [], normalize = (\<lambda>v u b m. Inr None), derive = Some f\<rparr> bag"

text \<open>What a derivation contributes: its value, nothing when it throws.\<close>

definition result_of :: "exn + jsval option \<Rightarrow> jsval option" where
  "result_of r = (case r of Inl e \<Rightarrow> None | Inr v \<Rightarrow> v)"

subsection \<open>The documented formulas\<close>

text \<open>
  The formulas of the derivation graph as the specification words them. \<open>rounded d x\<close>
  is \<open>x\<close> rounded to \<open>d\<close> decimals, absent when \<open>x\<close> is NaN; \<open>spec_ratio d x y\<close> is
  \<open>x \<div> y\<close> rounded to \<open>d\<close> decimals when both are present and \<open>y \<noteq> 0\<close>; \<open>spec_mean\<close> is
  \<open>(septal + lateral) \<div> 2\<close> when both are present; \<open>spec_cm_s\<close> is the velocity in m/s
  times 100; \<open>spec_PASP\<close> is \<open>4 \<times> TR_Vmax\<^sup>2 + RA pressure\<close> rounded to 0 decimals when
  both are present.
\<close>

definition rounded :: "nat \<Rightarrow> jsnum \<Rightarrow> jsval option" where
  "rounded d x = (if isNaN x then None else Some (Num (toFixed_num x d)))"

definition spec_ratio :: "nat \<Rightarrow> jsval option \<Rightarrow> jsval option \<Rightarrow> jsval option" where
  "spec_ratio d x y =
     (case x of
        Some (Num a) \<Rightarrow>
          (case y of
             Some (Num c) \<Rightarrow> if is_zero c then None else rounded d (js_div a c)
           | _ \<Rightarrow> None)
      | _ \<Rightarrow> None)"

definition spec_mean :: "jsval option \<Rightarrow> jsval option \<Rightarrow> jsnum option" where
  "spec_mean x y =
     (case x of
        Some (Num s) \<Rightarrow>
          (case y of Some (Num l) \<Rightarrow> Some (js_div (js_add s l) (lit_num 2)) | _ \<Rightarrow> None)
      | _ \<Rightarrow> None)"

definition spec_cm_s :: "jsval option \<Rightarrow> jsval option" where
  "spec_cm_s x = (case x of Some (Num a) \<Rightarrow> Some (Num (js_mul a (lit_num 100))) | _ \<Rightarrow> x)"

definition spec_PASP :: "jsval option \<Rightarrow> jsval option \<Rightarrow> jsval option" where
  "spec_PASP x y =
     (case x of
        Some (Num tr) \<Rightarrow>
          (case y of
             Some (Num rap) \<Rightarrow> rounded 0 (js_add (js_mul (js_mul (lit_num 4) tr) tr) rap)
           | _ \<Rightarrow> None)
      | _ \<Rightarrow> None)"

text \<open>Each derived field whose formula divides, with the key of its denominator.\<close>

definition zero_guarded :: "(fkey \<times> fkey) list" where
  "zero_guarded =
     [(EA_ratio, MV_A_m_s),
      (E_over_eprime_septal, eprime_septal_cm_s),
      (E_over_eprime_lateral, eprime_lateral_cm_s),
      (E_over_eprime_avg, eprime_avg_cm_s),
      (LAVI_ml_m2, BSA_m2),
      (LA_stiffness_index, LA_reservoir_strain_pct)]"

text \<open>The fields that have a derivation, in registry order.\<close>

definition derived_keys :: "fkey list" where
  "derived_keys =
     [EA_ratio, eprime_avg_cm_s, E_over_eprime_septal, E_over_eprime_lateral, E_over_eprime_avg,
      LAVI_ml_m2, PASP_mmHg, LA_stiffness_index]"

text \<open>Bags without a NaN, and fields whose functions never return one.\<close>

definition no_nan :: "bag \<Rightarrow> bool" where
  "no_nan bag \<longleftrightarrow> (\<forall>k. bag k \<noteq> Some (Num NaN))"

definition clean_spec :: "field_spec \<Rightarrow> bool" where
  "clean_spec spec \<longleftrightarrow>
     (\<forall>v u b m. normalize spec v u b m \<noteq> Inr (Some (Num NaN))) \<and>
     (\<forall>f b. derive spec = Some f \<longrightarrow> f b \<noteq> Inr (Some (Num NaN)))"

text \<open>
  Two calls in a row on the same text: the second call runs on the registry as the first
  one leaves it. The result is the two bags and the registry after both.
\<close>

definition parse_twice :: "jsstring \<Rightarrow> (bag \<times> bag \<times> field_spec list) option" where
  "parse_twice t =
     (case parseReport t of
        Inl e \<Rightarrow> None
      | Inr (bag1, specs1) \<Rightarrow>
          (case parse_with specs1 t of
             Inl e \<Rightarrow> None
           | Inr (bag2, specs2) \<Rightarrow> Some (bag1, bag2, specs2)))"

subsection \<open>Captured tokens\<close>

text \<open>
  The shape of the numeric rules: a sequence in which the token group \<open>([0-9.]+)\<close> or
  \<open>(-?[0-9.]+)\<close> is followed by no other group numbered 1. \<open>has_grp n r\<close> tells whether
  \<open>r\<close> holds a capturing group numbered \<open>n\<close>.
\<close>

primrec has_grp :: "nat \<Rightarrow> rx \<Rightarrow> bool" where
  "has_grp n Eps = False"
| "has_grp n (Lit as) = False"
| "has_grp n (One a) = False"
| "has_grp n (Rep a mn mx g) = False"
| "has_grp n (Opt r) = has_grp n r"
| "has_grp n (Seq r1 r2) = (has_grp n r1 \<or> has_grp n r2)"
| "has_grp n (Alt r1 r2) = (has_grp n r1 \<or> has_grp n r2)"
| "has_grp n (Grp m r) = (m = n \<or> has_grp n r)"
| "has_grp n WordB = False"
| "has_grp n (Ahead r) = has_grp n r"

fun captures_token :: "rx \<Rightarrow> bool" where
  "captures_token (Seq r r') =
     (if r = rx_num \<or> r = rx_snum then \<not> has_grp 1 r' else captures_token r')"
| "captures_token _ = False"

text \<open>A token of such a group: not empty, and made of digits, dots and minus signs.\<close>

definition numeric_token :: "jsstring \<Rightarrow> bool" where
  "numeric_token tok \<longleftrightarrow> tok \<noteq> [] \<and> list_all (\<lambda>c. is_digit c \<or> c = 46 \<or> c = 45) tok"

text \<open>
  A decimal numeral: an optional minus sign, then digits with at most one dot among them
  and at least one digit. A token is malformed when it is not one.
\<close>

definition decimal_body :: "jsstring \<Rightarrow> jsstring" where
  "decimal_body tok = (case tok of [] \<Rightarrow> [] | c # cs \<Rightarrow> if c = 45 then cs else tok)"

definition decimal_literal :: "jsstring \<Rightarrow> bool" where
  "decimal_literal tok \<longleftrightarrow>
     list_all (\<lambda>c. is_digit c \<or> c = 46) (decimal_body tok) \<and>
     length (filter (\<lambda>c. c = 46) (decimal_body tok)) \<le> 1 \<and>
     list_ex is_digit (decimal_body tok)"

text \<open>A numeral of value exactly 0: a decimal numeral whose digits are all \<open>0\<close>.\<close>

definition zero_literal :: "jsstring \<Rightarrow> bool" where
  "zero_literal tok \<longleftrightarrow> decimal_literal tok \<and> list_all (\<lambda>c. c = 48 \<or> c = 46 \<or> c = 45) tok"

text \<open>
  A field whose rules all have that shape. The combined blood-pressure rule and the rules
  of the rhythm capture other things.
\<close>

definition token_rules :: "field_spec \<Rightarrow> bool" where
  "token_rules spec \<longleftrightarrow>
     key spec \<in> set [Rhythm, BP_sys, BP_dia] \<or>
     list_all (\<lambda>R. captures_token (source R)) (patterns spec)"

subsection \<open>Inputs of the examples\<close>

text \<open>The bag of the derivation examples of the specification, with an LA volume, a body
  surface area and an LA reservoir strain added.\<close>

definition example_bag :: bag where
  "example_bag =
     Map.empty(MV_E_m_s \<mapsto> Num (to_double False (8 / 10)),
               MV_A_m_s \<mapsto> Num (to_double False (5 / 10)),
               eprime_septal_cm_s \<mapsto> Num (Fin False 6),
               eprime_lateral_cm_s \<mapsto> Num (Fin False 10),
               TR_Vmax_m_s \<mapsto> Num (to_double False (28 / 10)),
               RA_pressure_mmHg \<mapsto> Num (Fin False 5),
               LA_volume_ml \<mapsto> Num (Fin False 60),
               BSA_m2 \<mapsto> Num (Fin False 2),
               LA_reservoir_strain_pct \<mapsto> Num (Fin False 25))"

text \<open>A report whose LAVI is a numeral of 310 digits: 1 followed by 309 zeros.\<close>

definition huge_LAVI_report :: jsstring where
  "huge_LAVI_report = u16 ''LAVI '' @ (49 # replicate 309 48) @ u16 '' ml/m2''"

text \<open>
  A report in which the first rule of the mitral E velocity matches \<open>MV E . \<close> with the
  capture \<open>.\<close> and the second rule matches \<open>E wave 1.2\<close>.
\<close>

definition two_rule_report :: jsstring where
  "two_rule_report = u16 ''MV E . and E wave 1.2''"

text \<open>The heart-rate pattern as it would behave under the flag \<open>g\<close>.\<close>

definition global_HR_pattern :: regexp where
  "global_HR_pattern = (hd HR_bpm_patterns)\<lparr>global := True\<rparr>"

section \<open>Properties of the engine\<close>


lemma RegExp_exec_stateless: "stateless R \<Longrightarrow> snd (RegExp_exec R S) = R"
  by (auto simp: RegExp_exec_def stateless_def Let_def split: option.splits prod.splits)

lemma stateless_rxi [simp]: "stateless (rxi rs)"
  by (simp add: stateless_def rxi_def)

lemma round_js_total: "d \<le> 100 \<Longrightarrow> \<exists>r. round_js x d = Inr r"
  by (auto simp: round_js_def split: option.splits)

lemma match_rules_state:
  "list_all stateless rxs \<Longrightarrow> match_rules spec t rxs bag = Inr (bag', rs) \<Longrightarrow> rs = rxs"
proof (induction rxs arbitrary: bag bag' rs)
  case Nil
  then show ?case by simp
next
  case (Cons rx rxs)
  obtain m rx' where ex: "RegExp_exec rx t = (m, rx')" by (cases "RegExp_exec rx t")
  from Cons.prems(1) have st: "stateless rx" and rest: "list_all stateless rxs" by simp_all
  from RegExp_exec_stateless[OF st, of t] ex have rx': "rx' = rx" by simp
  from Cons.prems(2) ex rx' show ?case
    using Cons.IH[OF rest]
    by (auto simp: Let_def split: option.splits sum.splits prod.splits if_splits)
qed

lemma pass1_state:
  "\<forall>spec\<in>set specs. list_all stateless (patterns spec) \<Longrightarrow>
   pass1 specs t bag = Inr (bag', specs') \<Longrightarrow> specs' = specs"
proof (induction specs arbitrary: bag bag' specs')
  case Nil
  then show ?case by simp
next
  case (Cons spec specs)
  then show ?case
    by (auto split: sum.splits prod.splits dest!: match_rules_state)
qed

lemma match_rules_total:
  assumes "total_normalize spec"
  shows "\<exists>bag' rs. match_rules spec t rxs bag = Inr (bag', rs)"
proof (induction rxs)
  case Nil
  then show ?case by simp
next
  case (Cons rx rxs)
  obtain m rx' where ex: "RegExp_exec rx t = (m, rx')" by (cases "RegExp_exec rx t")
  from Cons obtain b2 rs2 where ih: "match_rules spec t rxs bag = Inr (b2, rs2)" by blast
  show ?case
  proof (cases m)
    case None
    with ex ih show ?thesis by simp
  next
    case (Some mt)
    from assms obtain r where nz: "normalize spec (m1 mt) (m2 mt) bag mt = Inr r"
      unfolding total_normalize_def by blast
    obtain s where s: "round_js (toNum (m1 mt)) 0 = Inr s" using round_js_total[of 0] by auto
    obtain d where d: "round_js (toNum (m2 mt)) 0 = Inr d" using round_js_total[of 0] by auto
    from ex ih Some nz s d show ?thesis
      by (cases r) (auto simp: Let_def)
  qed
qed

lemma pass1_total:
  assumes "\<forall>spec\<in>set specs. total_normalize spec"
  shows "\<exists>bag' specs'. pass1 specs t bag = Inr (bag', specs')"
  using assms
proof (induction specs arbitrary: bag)
  case Nil
  then show ?case by simp
next
  case (Cons spec specs)
  from Cons.prems have tn: "total_normalize spec" by simp
  from match_rules_total[OF tn] obtain b2 rs where m: "match_rules spec t (patterns spec) bag = Inr (b2, rs)"
    by blast
  from Cons.IH[of b2] Cons.prems obtain b3 sp where p: "pass1 specs t b2 = Inr (b3, sp)" by auto
  from m p show ?case by simp
qed

lemmas pattern_defs = velocity_patterns_def EA_ratio_patterns_def DT_ms_patterns_def
  eprime_wall_patterns_def eprime_avg_cm_s_patterns_def E_over_eprime_patterns_def
  TR_Vmax_m_s_patterns_def LAVI_ml_m2_patterns_def LA_volume_ml_patterns_def BSA_m2_patterns_def
  HR_bpm_patterns_def BP_patterns_def Rhythm_patterns_def LA_reservoir_strain_pct_patterns_def
  PV_SD_ratio_patterns_def IVRT_ms_patterns_def PASP_mmHg_patterns_def
  RA_pressure_mmHg_patterns_def LV_GLS_pct_patterns_def E_over_eprime_avg_exercise_patterns_def
  TR_Vmax_exercise_m_s_patterns_def

lemma FIELD_SPECS_stateless: "\<forall>spec\<in>set FIELD_SPECS. list_all stateless (patterns spec)"
  by (simp add: FIELD_SPECS_def spec_of_def pattern_defs)

lemma normalize_velocity_total: "\<exists>r. normalize_velocity v u = Inr r"
  using round_js_total[of 3]
  by (auto simp: normalize_velocity_def split: option.splits)

lemma normalize_eprime_total: "\<exists>r. normalize_eprime v u = Inr r"
  using round_js_total[of 2]
  by (auto simp: normalize_eprime_def split: option.splits)

lemma normalize_round_total: "d \<le> 100 \<Longrightarrow> \<exists>r. normalize_round d v = Inr r"
  by (simp add: normalize_round_def round_js_total)

lemma Rhythm_normalize_total: "\<exists>r. Rhythm_normalize v all = Inr r"
  by (auto simp: Rhythm_normalize_def Let_def split: option.splits)

lemma FIELD_SPECS_total: "\<forall>spec\<in>set FIELD_SPECS. total_normalize spec"
  by (simp add: FIELD_SPECS_def spec_of_def total_normalize_def normalize_velocity_total
      normalize_eprime_total normalize_round_total Rhythm_normalize_total)

lemma parse_split:
  "\<exists>b1. pass1 FIELD_SPECS t Map.empty = Inr (b1, FIELD_SPECS) \<and>
        parseReport t = Inr (pass2 FIELD_SPECS b1, FIELD_SPECS)"
proof -
  from pass1_total[OF FIELD_SPECS_total] obtain b1 sp
    where p: "pass1 FIELD_SPECS t Map.empty = Inr (b1, sp)" by blast
  from pass1_state[OF FIELD_SPECS_stateless p] have "sp = FIELD_SPECS" .
  with p show ?thesis by (auto simp: parseReport_def parse_with_def)
qed



lemma match_rules_frame:
  "match_rules spec t rxs bag = Inr (bag', rs) \<Longrightarrow> k \<noteq> key spec \<Longrightarrow>
   (bp_key (key spec) \<Longrightarrow> \<not> bp_key k) \<Longrightarrow> bag' k = bag k"
proof (induction rxs arbitrary: bag' rs)
  case Nil
  then show ?case by simp
next
  case (Cons rx rxs)
  obtain m rx' where ex: "RegExp_exec rx t = (m, rx')" by (cases "RegExp_exec rx t")
  from Cons.prems(1) ex Cons.prems(2,3) show ?case
    using Cons.IH
    by (auto simp: Let_def bp_key_def split: option.splits sum.splits prod.splits if_splits)
qed

lemma match_rules_Nil_patterns: "match_rules spec t [] bag = Inr (bag, [])"
  by simp

lemma pass1_frame:
  "pass1 specs t bag = Inr (bag', specs') \<Longrightarrow>
   \<forall>spec\<in>set specs. (key spec = k \<longrightarrow> patterns spec = []) \<and> (bp_key (key spec) \<longrightarrow> \<not> bp_key k) \<Longrightarrow>
   bag' k = bag k"
proof (induction specs arbitrary: bag bag' specs')
  case Nil
  then show ?case by simp
next
  case (Cons spec specs)
  from Cons.prems(1) obtain b2 rs b3 sp where
    m: "match_rules spec t (patterns spec) bag = Inr (b2, rs)" and
    p: "pass1 specs t b2 = Inr (b3, sp)" and b3: "bag' = b3"
    by (auto split: sum.splits prod.splits)
  from Cons.prems(2) have sp: "(key spec = k \<longrightarrow> patterns spec = [])" "(bp_key (key spec) \<longrightarrow> \<not> bp_key k)"
    and rest: "\<forall>spec\<in>set specs. (key spec = k \<longrightarrow> patterns spec = []) \<and> (bp_key (key spec) \<longrightarrow> \<not> bp_key k)"
    by simp_all
  have "b2 k = bag k"
  proof (cases "key spec = k")
    case True
    with sp m show ?thesis by simp
  next
    case False
    with match_rules_frame[OF m, of k] sp show ?thesis by auto
  qed
  moreover from Cons.IH[OF p rest] have "b3 k = b2 k" .
  ultimately show ?case using b3 by simp
qed

lemma derive_step_keeps: "bag k = Some v \<Longrightarrow> derive_step spec bag k = Some v"
  by (auto simp: derive_step_def split: option.splits sum.splits)

lemma derive_step_present: "bag (key spec) \<noteq> None \<Longrightarrow> derive_step spec bag = bag"
  by (auto simp: derive_step_def)

lemma derive_step_other: "k \<noteq> key spec \<Longrightarrow> derive_step spec bag k = bag k"
  by (auto simp: derive_step_def split: option.splits sum.splits)

lemma derive_step_no_derive: "derive spec = None \<Longrightarrow> derive_step spec bag = bag"
  by (simp add: derive_step_def)

lemma derive_step_throws: "derive spec = Some f \<Longrightarrow> f bag = Inl e \<Longrightarrow> derive_step spec bag = bag"
  by (simp add: derive_step_def)

lemma pass2_keeps: "bag k = Some v \<Longrightarrow> pass2 specs bag k = Some v"
  by (induction specs arbitrary: bag) (auto simp: derive_step_keeps)

lemma derive_step_spec_of: "derive_step (spec_of k ps nz (Some f)) bag = fill k f bag"
  by (auto simp: derive_step_def spec_of_def fill_def split: sum.splits option.splits)

lemma derive_step_spec_of_None: "derive_step (spec_of k ps nz None) bag = bag"
  by (simp add: derive_step_def spec_of_def)

lemma pass2_FIELD_SPECS:
  "pass2 FIELD_SPECS bag =
     fill LA_stiffness_index LA_stiffness_index_derive
      (fill PASP_mmHg PASP_mmHg_derive
        (fill LAVI_ml_m2 LAVI_ml_m2_derive
          (fill E_over_eprime_avg E_over_eprime_avg_derive
            (fill E_over_eprime_lateral E_over_eprime_lateral_derive
              (fill E_over_eprime_septal E_over_eprime_septal_derive
                (fill eprime_avg_cm_s eprime_avg_cm_s_derive
                  (fill EA_ratio EA_ratio_derive bag)))))))"
  by (simp add: FIELD_SPECS_def derive_step_spec_of derive_step_spec_of_None derive_step_no_derive)

lemma fill_other: "k' \<noteq> k \<Longrightarrow> fill k f bag k' = bag k'"
  by (simp add: fill_def derive_step_other)

lemma fill_self: "fill k f bag k = (case bag k of None \<Rightarrow> result_of (f bag) | Some v \<Rightarrow> Some v)"
  by (auto simp: fill_def derive_step_def result_of_def split: option.splits sum.splits)



lemma round_js_rounded: "d \<le> 100 \<Longrightarrow> result_of (round_js (Some x) d) = rounded d x"
  by (simp add: round_js_def rounded_def result_of_def)

lemmas derive_defs = EA_ratio_derive_def eprime_avg_cm_s_derive_def E_over_eprime_def
  E_over_eprime_septal_derive_def E_over_eprime_lateral_derive_def E_over_eprime_avg_derive_def
  LAVI_ml_m2_derive_def PASP_mmHg_derive_def LA_stiffness_index_derive_def

lemmas spec_defs = spec_ratio_def spec_mean_def spec_cm_s_def spec_PASP_def

lemma result_of_simps [simp]: "result_of (Inr v) = v" "result_of (Inl e) = None"
  by (simp_all add: result_of_def)

lemma EA_ratio_derive_spec:
  "result_of (EA_ratio_derive bag) = spec_ratio 2 (bag MV_E_m_s) (bag MV_A_m_s)"
  by (auto simp: derive_defs spec_defs round_js_rounded split: option.splits jsval.splits)

lemma eprime_avg_cm_s_derive_spec:
  "result_of (eprime_avg_cm_s_derive bag) =
     (case spec_mean (bag eprime_septal_cm_s) (bag eprime_lateral_cm_s) of
        None \<Rightarrow> None | Some m \<Rightarrow> rounded 2 m)"
  by (auto simp: derive_defs spec_defs round_js_rounded split: option.splits jsval.splits)

lemma E_over_eprime_spec:
  "result_of (E_over_eprime E e) = spec_ratio 2 (spec_cm_s E) e"
  by (auto simp: derive_defs spec_defs round_js_rounded split: option.splits jsval.splits)

lemma E_over_eprime_avg_derive_spec:
  "result_of (E_over_eprime_avg_derive bag) =
     spec_ratio 2 (spec_cm_s (bag MV_E_m_s))
       (case bag eprime_avg_cm_s of
          Some v \<Rightarrow> Some v
        | None \<Rightarrow> map_option Num (spec_mean (bag eprime_septal_cm_s) (bag eprime_lateral_cm_s)))"
proof -
  have "(case (bag eprime_septal_cm_s, bag eprime_lateral_cm_s) of
           (Some (Num s), Some (Num l)) \<Rightarrow> Some (Num (js_div (js_add s l) (lit_num 2)))
         | _ \<Rightarrow> None) =
        map_option Num (spec_mean (bag eprime_septal_cm_s) (bag eprime_lateral_cm_s))"
    by (auto simp: spec_defs split: option.splits jsval.splits)
  then show ?thesis
    by (cases "bag eprime_avg_cm_s") (simp_all add: E_over_eprime_avg_derive_def E_over_eprime_spec)
qed

lemma LAVI_ml_m2_derive_spec:
  "result_of (LAVI_ml_m2_derive bag) = spec_ratio 1 (bag LA_volume_ml) (bag BSA_m2)"
  by (auto simp: derive_defs spec_defs round_js_rounded split: option.splits jsval.splits)

lemma PASP_mmHg_derive_spec:
  "result_of (PASP_mmHg_derive bag) = spec_PASP (bag TR_Vmax_m_s) (bag RA_pressure_mmHg)"
  by (auto simp: derive_defs spec_defs round_js_rounded split: option.splits jsval.splits)

lemma LA_stiffness_index_derive_spec:
  "result_of (LA_stiffness_index_derive bag) =
     spec_ratio 2 (bag E_over_eprime_avg) (bag LA_reservoir_strain_pct)"
  by (auto simp: derive_defs spec_defs round_js_rounded split: option.splits jsval.splits)

lemmas derive_specs = EA_ratio_derive_spec eprime_avg_cm_s_derive_spec E_over_eprime_spec
  E_over_eprime_septal_derive_def E_over_eprime_lateral_derive_def E_over_eprime_avg_derive_spec
  LAVI_ml_m2_derive_spec PASP_mmHg_derive_spec LA_stiffness_index_derive_spec

text \<open>The bag after the second pass, key by key.\<close>

lemma pass2_EA_ratio:
  "pass2 FIELD_SPECS b EA_ratio =
     (case b EA_ratio of Some v \<Rightarrow> Some v
      | None \<Rightarrow> spec_ratio 2 (pass2 FIELD_SPECS b MV_E_m_s) (pass2 FIELD_SPECS b MV_A_m_s))"
  by (cases "b EA_ratio") (simp_all add: pass2_FIELD_SPECS fill_other fill_self derive_specs cong: option.case_cong)

lemma pass2_eprime_avg:
  "pass2 FIELD_SPECS b eprime_avg_cm_s =
     (case b eprime_avg_cm_s of Some v \<Rightarrow> Some v
      | None \<Rightarrow>
          (case spec_mean (pass2 FIELD_SPECS b eprime_septal_cm_s)
                  (pass2 FIELD_SPECS b eprime_lateral_cm_s) of
             None \<Rightarrow> None | Some m \<Rightarrow> rounded 2 m))"
  by (cases "b eprime_avg_cm_s") (simp_all add: pass2_FIELD_SPECS fill_other fill_self derive_specs cong: option.case_cong)

lemma pass2_E_over_eprime_septal:
  "pass2 FIELD_SPECS b E_over_eprime_septal =
     (case b E_over_eprime_septal of Some v \<Rightarrow> Some v
      | None \<Rightarrow> spec_ratio 2 (spec_cm_s (pass2 FIELD_SPECS b MV_E_m_s))
                  (pass2 FIELD_SPECS b eprime_septal_cm_s))"
  by (cases "b E_over_eprime_septal") (simp_all add: pass2_FIELD_SPECS fill_other fill_self derive_specs cong: option.case_cong)

lemma pass2_E_over_eprime_lateral:
  "pass2 FIELD_SPECS b E_over_eprime_lateral =
     (case b E_over_eprime_lateral of Some v \<Rightarrow> Some v
      | None \<Rightarrow> spec_ratio 2 (spec_cm_s (pass2 FIELD_SPECS b MV_E_m_s))
                  (pass2 FIELD_SPECS b eprime_lateral_cm_s))"
  by (cases "b E_over_eprime_lateral") (simp_all add: pass2_FIELD_SPECS fill_other fill_self derive_specs cong: option.case_cong)

lemma pass2_E_over_eprime_avg:
  "pass2 FIELD_SPECS b E_over_eprime_avg =
     (case b E_over_eprime_avg of Some v \<Rightarrow> Some v
      | None \<Rightarrow>
          spec_ratio 2 (spec_cm_s (pass2 FIELD_SPECS b MV_E_m_s))
            (case pass2 FIELD_SPECS b eprime_avg_cm_s of
               Some v \<Rightarrow> Some v
             | None \<Rightarrow> map_option Num (spec_mean (pass2 FIELD_SPECS b eprime_septal_cm_s)
                                          (pass2 FIELD_SPECS b eprime_lateral_cm_s))))"
  by (cases "b E_over_eprime_avg") (simp_all add: pass2_FIELD_SPECS fill_other fill_self derive_specs cong: option.case_cong)

lemma pass2_LAVI:
  "pass2 FIELD_SPECS b LAVI_ml_m2 =
     (case b LAVI_ml_m2 of Some v \<Rightarrow> Some v
      | None \<Rightarrow> spec_ratio 1 (pass2 FIELD_SPECS b LA_volume_ml) (pass2 FIELD_SPECS b BSA_m2))"
  by (cases "b LAVI_ml_m2") (simp_all add: pass2_FIELD_SPECS fill_other fill_self derive_specs cong: option.case_cong)

lemma pass2_PASP:
  "pass2 FIELD_SPECS b PASP_mmHg =
     (case b PASP_mmHg of Some v \<Rightarrow> Some v
      | None \<Rightarrow> spec_PASP (pass2 FIELD_SPECS b TR_Vmax_m_s) (pass2 FIELD_SPECS b RA_pressure_mmHg))"
  by (cases "b PASP_mmHg") (simp_all add: pass2_FIELD_SPECS fill_other fill_self derive_specs cong: option.case_cong)

lemma pass2_LA_stiffness:
  "pass2 FIELD_SPECS b LA_stiffness_index =
     (case b LA_stiffness_index of Some v \<Rightarrow> Some v
      | None \<Rightarrow> spec_ratio 2 (pass2 FIELD_SPECS b E_over_eprime_avg)
                  (pass2 FIELD_SPECS b LA_reservoir_strain_pct))"
  by (cases "b LA_stiffness_index") (simp_all add: pass2_FIELD_SPECS fill_other fill_self derive_specs cong: option.case_cong)



lemma to_double_not_NaN [simp]: "to_double s q \<noteq> NaN"
  by (simp add: to_double_def Let_def)

lemma toFixed_num_not_NaN: "\<not> isNaN x \<Longrightarrow> toFixed_num x d \<noteq> NaN"
  by (cases x) simp_all

lemma round_js_not_NaN: "round_js x d = Inr (Some v) \<Longrightarrow> v \<noteq> Num NaN"
  by (auto simp: round_js_def toFixed_num_not_NaN split: option.splits if_splits)

lemma match_rules_no_nan:
  assumes "clean_spec spec"
  shows "no_nan bag \<Longrightarrow> match_rules spec t rxs bag = Inr (bag', rs) \<Longrightarrow> no_nan bag'"
proof (induction rxs arbitrary: bag' rs)
  case Nil
  then show ?case by simp
next
  case (Cons rx rxs)
  obtain m rx' where ex: "RegExp_exec rx t = (m, rx')" by (cases "RegExp_exec rx t")
  have nz: "normalize spec v u b mt \<noteq> Inr (Some (Num NaN))" for v u b mt
    using assms by (simp add: clean_spec_def)
  from Cons.prems ex show ?case
    using Cons.IH nz
    by (auto simp: Let_def no_nan_def split: option.splits sum.splits prod.splits if_splits
             dest: round_js_not_NaN)
qed

lemma pass1_no_nan:
  "\<forall>spec\<in>set specs. clean_spec spec \<Longrightarrow> no_nan bag \<Longrightarrow>
   pass1 specs t bag = Inr (bag', specs') \<Longrightarrow> no_nan bag'"
proof (induction specs arbitrary: bag bag' specs')
  case Nil
  then show ?case by simp
next
  case (Cons spec specs)
  from Cons.prems(3) obtain b2 rs b3 sp where
    m: "match_rules spec t (patterns spec) bag = Inr (b2, rs)" and
    p: "pass1 specs t b2 = Inr (b3, sp)" and b3: "bag' = b3"
    by (auto split: sum.splits prod.splits)
  from Cons.prems(1) have c: "clean_spec spec" and cs: "\<forall>spec\<in>set specs. clean_spec spec" by simp_all
  from match_rules_no_nan[OF c Cons.prems(2) m] have "no_nan b2" .
  from Cons.IH[OF cs this p] b3 show ?case by simp
qed

lemma derive_step_no_nan: "clean_spec spec \<Longrightarrow> no_nan bag \<Longrightarrow> no_nan (derive_step spec bag)"
  by (auto simp: derive_step_def clean_spec_def no_nan_def split: option.splits sum.splits)

lemma pass2_no_nan: "\<forall>spec\<in>set specs. clean_spec spec \<Longrightarrow> no_nan bag \<Longrightarrow> no_nan (pass2 specs bag)"
  by (induction specs arbitrary: bag) (auto simp: derive_step_no_nan)

lemma round_js_clean [simp]: "round_js x d \<noteq> Inr (Some (Num NaN))"
  using round_js_not_NaN by blast

lemma normalize_velocity_clean [simp]: "normalize_velocity v u \<noteq> Inr (Some (Num NaN))"
  by (auto simp: normalize_velocity_def split: option.splits)

lemma normalize_eprime_clean [simp]: "normalize_eprime v u \<noteq> Inr (Some (Num NaN))"
  by (auto simp: normalize_eprime_def split: option.splits)

lemma normalize_round_clean [simp]: "normalize_round d v \<noteq> Inr (Some (Num NaN))"
  by (simp add: normalize_round_def)

lemma Rhythm_normalize_clean [simp]: "Rhythm_normalize v all \<noteq> Inr (Some (Num NaN))"
  by (auto simp: Rhythm_normalize_def Let_def split: option.splits)

lemma derive_clean [simp]:
  "EA_ratio_derive b \<noteq> Inr (Some (Num NaN))"
  "eprime_avg_cm_s_derive b \<noteq> Inr (Some (Num NaN))"
  "E_over_eprime E e \<noteq> Inr (Some (Num NaN))"
  "LAVI_ml_m2_derive b \<noteq> Inr (Some (Num NaN))"
  "PASP_mmHg_derive b \<noteq> Inr (Some (Num NaN))"
  "LA_stiffness_index_derive b \<noteq> Inr (Some (Num NaN))"
  by (auto simp: derive_defs split: option.splits jsval.splits)

lemma FIELD_SPECS_clean: "\<forall>spec\<in>set FIELD_SPECS. clean_spec spec"
  by (simp add: FIELD_SPECS_def spec_of_def clean_spec_def E_over_eprime_septal_derive_def
      E_over_eprime_lateral_derive_def E_over_eprime_avg_derive_def)

lemma parsed_no_nan: "parseReport t = Inr (bag, specs) \<Longrightarrow> bag k \<noteq> Some (Num NaN)"
proof -
  assume a: "parseReport t = Inr (bag, specs)"
  from parse_split[of t] obtain b1 where
    p1: "pass1 FIELD_SPECS t Map.empty = Inr (b1, FIELD_SPECS)" and
    pr: "parseReport t = Inr (pass2 FIELD_SPECS b1, FIELD_SPECS)" by blast
  have "no_nan Map.empty" by (simp add: no_nan_def)
  from pass1_no_nan[OF FIELD_SPECS_clean this p1] have "no_nan b1" .
  from pass2_no_nan[OF FIELD_SPECS_clean this] a pr show ?thesis by (simp add: no_nan_def)
qed

text \<open>A zero denominator gives no ratio.\<close>

lemma spec_ratio_zero: "is_zero c \<Longrightarrow> spec_ratio d x (Some (Num c)) = None"
  by (auto simp: spec_ratio_def split: option.splits jsval.splits)

text \<open>The LA stiffness index has no rule, so the first pass never sets it.\<close>

lemma pass1_LA_stiffness:
  "pass1 FIELD_SPECS t Map.empty = Inr (b1, specs) \<Longrightarrow> b1 LA_stiffness_index = None"
proof -
  assume a: "pass1 FIELD_SPECS t Map.empty = Inr (b1, specs)"
  have "\<forall>spec\<in>set FIELD_SPECS. (key spec = LA_stiffness_index \<longrightarrow> patterns spec = []) \<and>
          (bp_key (key spec) \<longrightarrow> \<not> bp_key LA_stiffness_index)"
    by (simp add: FIELD_SPECS_def spec_of_def bp_key_def)
  from pass1_frame[OF a this] show ?thesis by simp
qed



lemma rnd_even_ge_floor: "\<lfloor>x\<rfloor> \<le> rnd_even x"
  by (simp add: rnd_even_def Let_def)

lemma to_double_overflow:
  assumes "2 ^ 1024 \<le> q"
  shows "to_double s q = Infinity s"
proof -
  define n where "n = \<lfloor>q\<rfloor>"
  define B where "B = bitlen n"
  define k where "k = nat (B - 53)"
  have q0: "q \<noteq> 0" "1 \<le> q" using assms
    by (auto intro: order_trans[where y = "2 ^ 1024"])
  have "of_int ((2::int) ^ 1024) \<le> q" using assms by simp
  then have n_ge: "2 ^ 1024 \<le> n" unfolding n_def by (simp only: le_floor_iff)
  then have n_pos: "0 < n" by (auto intro: less_le_trans[where y = "2 ^ 1024"])
  have B_ge: "1025 \<le> B"
    unfolding B_def using n_ge by (simp add: bitlen_ge_iff_power)
  have e_eq: "max (B - 1) (- 1022) - 52 = B - 53" using B_ge by simp
  have e_nonneg: "0 \<le> B - 53" using B_ge by simp
  have "nat (B - 1) = k + 52" using B_ge by (simp add: k_def)
  with bitlen_bounds[OF n_pos] have "(2::int) ^ (k + 52) \<le> n" by (simp add: B_def)
  then have "(of_int ((2::int) ^ (k + 52)) :: rat) \<le> of_int n" by (simp only: of_int_le_iff)
  also have "\<dots> \<le> q" unfolding n_def by simp
  finally have "(2::rat) ^ 52 * 2 ^ k \<le> q" by (simp add: power_add mult.commute)
  then have "(2::rat) ^ 52 \<le> q / 2 ^ k" by (simp add: pos_le_divide_eq)
  then have "of_int ((2::int) ^ 52) \<le> q / of_int (2 ^ k)" by simp
  then have "(2::int) ^ 52 \<le> \<lfloor>q / of_int (2 ^ k)\<rfloor>" by (simp only: le_floor_iff)
  with rnd_even_ge_floor[of "q / of_int (2 ^ k)"]
  have m_ge: "(2::int) ^ 52 \<le> rnd_even (q / of_int (2 ^ k))" by linarith
  then have "53 \<le> bitlen (rnd_even (q / of_int (2 ^ k)))"
    by (simp add: bitlen_ge_iff_power)
  with B_ge have big: "1024 < bitlen (rnd_even (q / of_int (2 ^ k))) + (B - 53)" by linarith
  show ?thesis
    using q0 e_eq e_nonneg big
    by (simp add: to_double_def Let_def n_def[symmetric] B_def[symmetric] k_def[symmetric])
qed

lemma digits_val_replicate:
  "foldl (\<lambda>a c. 10 * a + (c - 48)) (a::nat) (replicate n 48) = a * 10 ^ n"
  by (induction n arbitrary: a) simp_all

lemma Number_dec_power10:
  "Number_dec (49 # replicate n 48) = to_double False (10 ^ n)"
proof -
  have d: "is_digit 49" "is_digit 48" by (simp_all add: is_digit_def)
  have tw: "takeWhile is_digit (49 # replicate n 48) = 49 # replicate n 48"
    using d by (simp add: takeWhile_eq_all_conv)
  have dw: "dropWhile is_digit (49 # replicate n 48) = []"
    using d by (simp add: dropWhile_eq_Nil_conv)
  show ?thesis
    by (simp add: Number_dec_def Let_def tw dw digits_val_def digits_val_replicate del: takeWhile.simps dropWhile.simps)
qed

lemma normalize_round_overflow:
  "d \<le> 100 \<Longrightarrow> normalize_round d (Some (49 # replicate 309 48)) = Inr (Some (Num (Infinity False)))"
proof -
  assume d: "d \<le> 100"
  have keep: "filter (\<lambda>c. is_digit c \<or> c = 46 \<or> c = 43 \<or> c = 45) (49 # replicate 309 48) = 49 # replicate 309 48"
    by (simp add: is_digit_def)
  have "to_double False (10 ^ 309) = Infinity False"
    by (rule to_double_overflow) simp
  with d keep show ?thesis
    by (simp add: normalize_round_def toNum_def Number_dec_power10 round_js_def del: filter.simps)
qed



lemma rep_from_replicate:
  "atom_match ic a c \<Longrightarrow>
   rep_from ic a True 0 None k
     (s\<lparr>pos := pos s + n, prev := (if n = 0 then prev s else Some c), rest := cs\<rparr>) cs \<noteq> None \<Longrightarrow>
   rest s = replicate n c @ cs \<Longrightarrow>
   rep_from ic a True 0 None k s (replicate n c @ cs) =
   rep_from ic a True 0 None k
     (s\<lparr>pos := pos s + n, prev := (if n = 0 then prev s else Some c), rest := cs\<rparr>) cs"
proof (induction n arbitrary: s)
  case 0
  from "0.prems"(3) have "cs = rest s" by simp
  then show ?case by simp
next
  case (Suc n)
  let ?s1 = "advance s"
  from Suc.prems(3) have adv: "?s1 = s\<lparr>pos := Suc (pos s), prev := Some c, rest := replicate n c @ cs\<rparr>"
    by (simp add: advance_def)
  have eq: "?s1\<lparr>pos := pos ?s1 + n, prev := (if n = 0 then prev ?s1 else Some c), rest := cs\<rparr> =
            s\<lparr>pos := pos s + Suc n, prev := (if Suc n = 0 then prev s else Some c), rest := cs\<rparr>"
    by (simp add: adv)
  have r1: "rest ?s1 = replicate n c @ cs" by (simp add: adv)
  from Suc.prems(2) eq have nn: "rep_from ic a True 0 None k
     (?s1\<lparr>pos := pos ?s1 + n, prev := (if n = 0 then prev ?s1 else Some c), rest := cs\<rparr>) cs \<noteq> None"
    by simp
  from Suc.IH[OF Suc.prems(1) nn r1] eq
  have ih: "rep_from ic a True 0 None k ?s1 (replicate n c @ cs) =
            rep_from ic a True 0 None k
              (s\<lparr>pos := pos s + Suc n, prev := (if Suc n = 0 then prev s else Some c), rest := cs\<rparr>) cs"
    by simp
  from Suc.prems(2) obtain r where r: "rep_from ic a True 0 None k
      (s\<lparr>pos := pos s + Suc n, prev := (if Suc n = 0 then prev s else Some c), rest := cs\<rparr>) cs = Some r"
    by auto
  have step: "rep_from ic a True 0 None k s (replicate (Suc n) c @ cs) =
      (case rep_from ic a True 0 None k ?s1 (replicate n c @ cs) of
         Some r \<Rightarrow> Some r | None \<Rightarrow> k s)"
    using Suc.prems(1) by (simp add: dec_def)
  show ?case
    unfolding step ih r by simp
qed

lemmas rx_defs = rxi_def rxp_def seqs_def alts_def rx_ws_def rx_sep_def rx_num_def rx_snum_def
  rx_gap_def rx_prime_def rx_unit_m_def rx_unit_cm_def rx_m2_def rx_septal_def rx_lateral_def
  rx_avg_def rx_exercise_def

lemmas match_defs = RegExp_exec_def RegExp_test_def rep_match_def advance_def dec_def
  is_space_def is_word_def is_word_opt_def next_cu_def canon_def lower_def u16_def
  is_line_terminator_def

lemma LAVI_huge_match:
  "fst (RegExp_exec (hd LAVI_ml_m2_patterns) (u16 ''LAVI '' @ (49 # replicate 309 48) @ u16 '' ml/m2'')) =
     Some \<lparr>m0 = u16 ''LAVI '' @ (49 # replicate 309 48) @ u16 '' ml/m2'',
           m1 = Some (49 # replicate 309 48), m2 = None\<rparr>"
  by (simp add: LAVI_ml_m2_patterns_def rx_defs match_defs rep_from_replicate)



lemma match_rules_hit:
  "fst (RegExp_exec rx t) = Some mt \<Longrightarrow> normalize spec (m1 mt) (m2 mt) bag mt = Inr (Some v) \<Longrightarrow>
   \<exists>rx'. match_rules spec t (rx # rxs) bag = Inr (bag(key spec \<mapsto> v), rx' # rxs)"
  by (cases "RegExp_exec rx t") (auto simp: Let_def)

lemma match_rules_pass:
  "rule_passes spec t bag rx \<Longrightarrow>
   match_rules spec t (rx # rxs) bag =
     (case match_rules spec t rxs bag of
        Inl e \<Rightarrow> Inl e
      | Inr (bag', rxs') \<Rightarrow> Inr (bag', snd (RegExp_exec rx t) # rxs'))"
  by (cases "RegExp_exec rx t")
     (auto simp: rule_passes_def bp_key_def Let_def split: option.splits sum.splits prod.splits)

lemma first_settling:
  assumes "\<forall>r\<in>set pre. rule_passes spec t bag r"
    and "fst (RegExp_exec rx t) = Some mt"
    and "normalize spec (m1 mt) (m2 mt) bag mt = Inr (Some v)"
  shows "\<exists>rs. length rs = Suc (length pre) \<and>
           match_rules spec t (pre @ rx # post) bag = Inr (bag(key spec \<mapsto> v), rs @ post)"
  using assms(1)
proof (induction pre)
  case Nil
  from match_rules_hit[OF assms(2,3), of post] obtain rx' where
    "match_rules spec t (rx # post) bag = Inr (bag(key spec \<mapsto> v), rx' # post)" by blast
  then have "length [rx'] = Suc (length []) \<and>
      match_rules spec t ([] @ rx # post) bag = Inr (bag(key spec \<mapsto> v), [rx'] @ post)" by simp
  then show ?case by blast
next
  case (Cons p pre)
  from Cons.prems have p: "rule_passes spec t bag p" and rest: "\<forall>r\<in>set pre. rule_passes spec t bag r"
    by simp_all
  from Cons.IH[OF rest] obtain rs where
    rs: "length rs = Suc (length pre)"
        "match_rules spec t (pre @ rx # post) bag = Inr (bag(key spec \<mapsto> v), rs @ post)" by blast
  from match_rules_pass[OF p, of "pre @ rx # post"] rs
  have "match_rules spec t ((p # pre) @ rx # post) bag =
          Inr (bag(key spec \<mapsto> v), (snd (RegExp_exec p t) # rs) @ post)" by simp
  moreover have "length (snd (RegExp_exec p t) # rs) = Suc (length (p # pre))" using rs by simp
  ultimately show ?case by blast
qed

lemma pass1_key:
  assumes "distinct (map key specs)" "spec \<in> set specs" "\<not> bp_key (key spec)"
    and hit: "\<And>b. \<exists>rs. match_rules spec t (patterns spec) b = Inr (b(key spec \<mapsto> v), rs)"
  shows "pass1 specs t bag = Inr (bag', specs') \<Longrightarrow> bag' (key spec) = Some v"
  using assms(1,2)
proof (induction specs arbitrary: bag bag' specs')
  case Nil
  then show ?case by simp
next
  case (Cons s specs)
  from Cons.prems(1) obtain b2 rs b3 sp where
    m: "match_rules s t (patterns s) bag = Inr (b2, rs)" and
    p: "pass1 specs t b2 = Inr (b3, sp)" and b3: "bag' = b3"
    by (auto split: sum.splits prod.splits)
  show ?case
  proof (cases "s = spec")
    case True
    from hit[of bag] m True have "b2 (key spec) = Some v" by auto
    moreover have "\<forall>s'\<in>set specs. (key s' = key spec \<longrightarrow> patterns s' = []) \<and>
                     (bp_key (key s') \<longrightarrow> \<not> bp_key (key spec))"
      using Cons.prems(2) True assms(3) by (auto simp: image_iff)
    from pass1_frame[OF p this] have "b3 (key spec) = b2 (key spec)" .
    ultimately show ?thesis using b3 by simp
  next
    case False
    with Cons.prems(3) have "spec \<in> set specs" by simp
    moreover from Cons.prems(2) have "distinct (map key specs)" by simp
    ultimately show ?thesis using Cons.IH[OF p] b3 by simp
  qed
qed

lemma FIELD_SPECS_distinct: "distinct (map key FIELD_SPECS)"
  by (simp add: FIELD_SPECS_def spec_of_def)

lemma LAVI_huge_pass1:
  assumes "pass1 FIELD_SPECS huge_LAVI_report Map.empty = Inr (b1, specs)"
  shows "b1 LAVI_ml_m2 = Some (Num (Infinity False))"
proof -
  let ?spec = "spec_of LAVI_ml_m2 LAVI_ml_m2_patterns (\<lambda>v unit. normalize_round 1 v) (Some LAVI_ml_m2_derive)"
  have mem: "?spec \<in> set FIELD_SPECS" by (simp add: FIELD_SPECS_def)
  have nbp: "\<not> bp_key (key ?spec)" by (simp add: spec_of_def bp_key_def)
  have pats: "patterns ?spec = [hd LAVI_ml_m2_patterns]"
    by (simp add: spec_of_def LAVI_ml_m2_patterns_def)
  have nz: "normalize ?spec (Some (49 # replicate 309 48)) None b
              \<lparr>m0 = huge_LAVI_report, m1 = Some (49 # replicate 309 48), m2 = None\<rparr> =
            Inr (Some (Num (Infinity False)))" for b
    by (simp add: spec_of_def normalize_round_overflow)
  have hit: "\<exists>rs. match_rules ?spec huge_LAVI_report (patterns ?spec) b = Inr (b(key ?spec \<mapsto> Num (Infinity False)), rs)" for b
    unfolding pats
    using match_rules_hit[of "hd LAVI_ml_m2_patterns" huge_LAVI_report _ ?spec b "Num (Infinity False)" "[]",
                          OF LAVI_huge_match[folded huge_LAVI_report_def]] nz[of b]
    by auto
  from pass1_key[OF FIELD_SPECS_distinct mem nbp hit assms] show ?thesis
    by (simp add: spec_of_def)
qed

lemma LAVI_huge_parsed: "parsed huge_LAVI_report [LAVI_ml_m2] = [Some (Num (Infinity False))]"
proof -
  from parse_split[of huge_LAVI_report] obtain b1 where
    p1: "pass1 FIELD_SPECS huge_LAVI_report Map.empty = Inr (b1, FIELD_SPECS)" and
    pr: "parseReport huge_LAVI_report = Inr (pass2 FIELD_SPECS b1, FIELD_SPECS)" by blast
  from LAVI_huge_pass1[OF p1] have "pass2 FIELD_SPECS b1 LAVI_ml_m2 = Some (Num (Infinity False))"
    by (rule pass2_keeps)
  with pr show ?thesis by (simp add: parsed_def)
qed

text \<open>Tokens whose value is zero, and malformed tokens.\<close>

lemma floor_half: "\<lfloor>(1::rat) / 2\<rfloor> = 0"
  by (rule floor_unique) simp_all

lemma toFixed_num_zero: "toFixed_num (Fin s 0) d = Fin False 0"
  by (simp add: floor_half to_double_def)

lemma round_js_zero: "is_zero z \<Longrightarrow> d \<le> 100 \<Longrightarrow> round_js (Some z) d = Inr (Some (Num (Fin False 0)))"
  by (cases z) (simp_all add: round_js_def floor_half to_double_def)

lemma js_mul_zero: "is_zero z \<Longrightarrow> is_zero (js_mul z (lit_num 100))"
  by (cases z) (simp_all add: lit_num_def to_double_def)

lemma js_div_zero: "is_zero z \<Longrightarrow> is_zero (js_div z (lit_num 100))"
  by (cases z) (simp_all add: lit_num_def to_double_def)

lemma is_zero_not_NaN: "is_zero z \<Longrightarrow> \<not> isNaN z"
  by (cases z) simp_all

lemma normalize_zero:
  assumes "toNum v = Some z" "is_zero z"
  shows "normalize_velocity v u = Inr (Some (Num (Fin False 0)))"
    and "normalize_eprime v u = Inr (Some (Num (Fin False 0)))"
    and "d \<le> 100 \<Longrightarrow> normalize_round d v = Inr (Some (Num (Fin False 0)))"
  using assms
  by (simp_all add: normalize_velocity_def normalize_eprime_def normalize_round_def
      round_js_zero js_mul_zero js_div_zero is_zero_not_NaN)

lemma normalize_malformed:
  assumes "toNum v = None \<or> toNum v = Some NaN"
  shows "normalize_velocity v u = Inr None"
    and "normalize_eprime v u = Inr None"
    and "normalize_round d v = Inr None"
  using assms
  by (auto simp: normalize_velocity_def normalize_eprime_def normalize_round_def round_js_def)



text \<open>What \<open>parsed\<close> and \<open>matched\<close> read: the bag of the first pass, and the second pass on it.\<close>

lemma parsed_matched:
  "\<exists>b1. matched t ks = map b1 ks \<and> parsed t ks = map (pass2 FIELD_SPECS b1) ks \<and>
        matched t ks' = map b1 ks' \<and> parsed t ks' = map (pass2 FIELD_SPECS b1) ks' \<and>
        b1 LA_stiffness_index = None \<and> no_nan (pass2 FIELD_SPECS b1)"
proof -
  from parse_split[of t] obtain b1 where
    p1: "pass1 FIELD_SPECS t Map.empty = Inr (b1, FIELD_SPECS)" and
    pr: "parseReport t = Inr (pass2 FIELD_SPECS b1, FIELD_SPECS)" by blast
  have "no_nan Map.empty" by (simp add: no_nan_def)
  from pass1_no_nan[OF FIELD_SPECS_clean this p1] have "no_nan b1" .
  from pass2_no_nan[OF FIELD_SPECS_clean this] have "no_nan (pass2 FIELD_SPECS b1)" .
  with p1 pr pass1_LA_stiffness[OF p1] show ?thesis
    by (auto simp: parsed_def matched_def)
qed

subsection \<open>What the numeric rules capture\<close>

text \<open>
  A successful match went through the continuation, and a pattern without a group
  numbered \<open>n\<close> leaves capture \<open>n\<close> as it found it.
\<close>

lemma advance_caps [simp]: "caps (advance s) = caps s"
  by (simp add: advance_def split: list.splits)

lemma lit_match_reaches:
  "lit_match ic as k s = Some res \<Longrightarrow> \<exists>s'. k s' = Some res \<and> caps s' = caps s"
proof (induction as arbitrary: s)
  case Nil
  then show ?case by auto
next
  case (Cons a as)
  from Cons.prems obtain c cs where "rest s = c # cs"
    and "lit_match ic as k (advance s) = Some res"
    by (auto split: list.splits if_splits)
  from Cons.IH[OF this(2)] show ?case by auto
qed

lemma rep_from_consumes:
  "rep_from ic a g mn mx k s cs = Some res \<Longrightarrow> rest s = cs \<Longrightarrow>
   (case mx of None \<Rightarrow> True | Some m \<Rightarrow> mn \<le> m) \<Longrightarrow>
   \<exists>s1 xs. k s1 = Some res \<and> cs = xs @ rest s1 \<and> pos s1 = pos s + length xs \<and>
           mn \<le> length xs \<and> list_all (atom_match ic a) xs \<and> caps s1 = caps s"
proof (induction cs arbitrary: s mn mx)
  case Nil
  then have "k s = Some res" "mn = 0" by (auto split: if_splits)
  with Nil.prems(2) have "k s = Some res \<and> [] = [] @ rest s \<and> pos s = pos s + length ([]::nat list) \<and>
      mn \<le> length ([]::nat list) \<and> list_all (atom_match ic a) [] \<and> caps s = caps s" by simp
  then show ?case by blast
next
  case (Cons c cs)
  have stay: ?case if "k s = Some res" "mn = 0"
  proof -
    from that Cons.prems(2) have "k s = Some res \<and> c # cs = [] @ rest s \<and>
        pos s = pos s + length ([]::nat list) \<and> mn \<le> length ([]::nat list) \<and>
        list_all (atom_match ic a) [] \<and> caps s = caps s" by simp
    then show ?thesis by blast
  qed
  have adv: "rest (advance s) = cs" "pos (advance s) = Suc (pos s)"
    using Cons.prems(2) by (simp_all add: advance_def)
  have go: ?case
    if r: "rep_from ic a g (mn - 1) (dec mx) k (advance s) cs = Some res" and m: "atom_match ic a c"
      and nz: "mx \<noteq> Some 0"
  proof -
    have b: "(case dec mx of None \<Rightarrow> True | Some m \<Rightarrow> mn - 1 \<le> m)"
      using Cons.prems(3) by (auto simp: dec_def split: option.splits)
    from Cons.IH[OF r adv(1) b] obtain s1 xs where
      x: "k s1 = Some res" "cs = xs @ rest s1" "pos s1 = pos (advance s) + length xs"
         "mn - 1 \<le> length xs" "list_all (atom_match ic a) xs" "caps s1 = caps (advance s)"
      by blast
    from x m adv have "k s1 = Some res \<and> c # cs = (c # xs) @ rest s1 \<and>
        pos s1 = pos s + length (c # xs) \<and> mn \<le> length (c # xs) \<and>
        list_all (atom_match ic a) (c # xs) \<and> caps s1 = caps s" by simp
    then show ?thesis by blast
  qed
  from Cons.prems(1,3) show ?case
    using stay go
    by (auto split: if_splits option.splits)
qed

lemma rep_from_reaches:
  "rep_from ic a g mn mx k s cs = Some res \<Longrightarrow> \<exists>s'. k s' = Some res \<and> caps s' = caps s"
proof (induction cs arbitrary: s mn mx)
  case Nil
  then show ?case by (auto split: if_splits)
next
  case (Cons c cs)
  from Cons.prems show ?case
    using Cons.IH[of _ _ "advance s"]
    by (auto split: if_splits option.splits)
qed

lemma rx_match_reaches:
  "rx_match ic r k s = Some res \<Longrightarrow>
   \<exists>s'. k s' = Some res \<and> (\<not> has_grp n r \<longrightarrow> caps s' n = caps s n)"
proof (induction r arbitrary: k s res)
  case Eps
  then show ?case by auto
next
  case (Lit as)
  then show ?case using lit_match_reaches[of ic as k s res] by auto
next
  case (One a)
  then show ?case by (auto split: list.splits if_splits)
next
  case (Rep a mn mx g)
  from Rep have "rep_from ic a g mn mx k s (rest s) = Some res" by (simp add: rep_match_def)
  from rep_from_reaches[OF this] obtain s' where "k s' = Some res" "caps s' = caps s" by blast
  then show ?case by auto
next
  case (Opt r)
  from Opt.prems consider "rx_match ic r k s = Some res" | "k s = Some res"
    by (auto split: option.splits)
  then show ?case
  proof cases
    case 1
    from Opt.IH[OF 1] show ?thesis by simp
  next
    case 2
    then show ?thesis by auto
  qed
next
  case (Seq r1 r2)
  from Seq.prems have "rx_match ic r1 (rx_match ic r2 k) s = Some res" by simp
  from Seq.IH(1)[OF this] obtain s1 where
    a: "rx_match ic r2 k s1 = Some res" "\<not> has_grp n r1 \<longrightarrow> caps s1 n = caps s n" by blast
  from Seq.IH(2)[OF a(1)] obtain s2 where
    b: "k s2 = Some res" "\<not> has_grp n r2 \<longrightarrow> caps s2 n = caps s1 n" by blast
  from a b show ?case by auto
next
  case (Alt r1 r2)
  from Alt.prems consider "rx_match ic r1 k s = Some res" | "rx_match ic r2 k s = Some res"
    by (auto split: option.splits)
  then show ?case
  proof cases
    case 1
    from Alt.IH(1)[OF 1] obtain s' where "k s' = Some res" "\<not> has_grp n r1 \<longrightarrow> caps s' n = caps s n"
      by blast
    then show ?thesis by auto
  next
    case 2
    from Alt.IH(2)[OF 2] obtain s' where "k s' = Some res" "\<not> has_grp n r2 \<longrightarrow> caps s' n = caps s n"
      by blast
    then show ?thesis by auto
  qed
next
  case (Grp m r)
  from Grp.prems Grp.IH obtain s1 where
    a: "k (s1\<lparr>caps := (caps s1)(m := Some (take (pos s1 - pos s) (rest s)))\<rparr>) = Some res"
       "\<not> has_grp n r \<longrightarrow> caps s1 n = caps s n"
    by fastforce
  then show ?case by (intro exI[of _ "s1\<lparr>caps := (caps s1)(m := Some (take (pos s1 - pos s) (rest s)))\<rparr>"]) auto
next
  case WordB
  then show ?case by (auto split: if_splits)
next
  case (Ahead r)
  from Ahead.prems obtain s2 where
    a: "rx_match ic r Some s = Some s2" "k (s\<lparr>caps := caps s2\<rparr>) = Some res"
    by (auto split: option.splits)
  from Ahead.IH[OF a(1)] have "\<not> has_grp n r \<longrightarrow> caps s2 n = caps s n" by auto
  with a(2) show ?case by (intro exI[of _ "s\<lparr>caps := caps s2\<rparr>"]) auto
qed

text \<open>The token groups capture numeric tokens.\<close>

lemma num_atom_chars:
  "atom_match ic (Cls False [Rg CHR ''0'' CHR ''9'', Ch CHR ''.'']) c \<Longrightarrow> is_digit c \<or> c = 46"
  by (auto simp: canon_def lower_def is_digit_def split: if_splits)

lemma num_run_token:
  "1 \<le> length xs \<Longrightarrow>
   list_all (atom_match ic (Cls False [Rg CHR ''0'' CHR ''9'', Ch CHR ''.''])) xs \<Longrightarrow>
   numeric_token xs \<and> numeric_token (45 # xs)"
  using num_atom_chars[of ic] by (auto simp: numeric_token_def list_all_iff)

lemma rx_num_captures:
  assumes "rx_match ic rx_num k s = Some res"
  shows "\<exists>s' tok. k s' = Some res \<and> caps s' 1 = Some tok \<and> numeric_token tok"
proof -
  let ?a = "Cls False [Rg CHR ''0'' CHR ''9'', Ch CHR ''.'']"
  let ?k = "\<lambda>s'. k (s'\<lparr>caps := (caps s')(1 := Some (take (pos s' - pos s) (rest s)))\<rparr>)"
  from assms have r: "rep_from ic ?a True 1 None ?k s (rest s) = Some res"
    by (simp add: rx_num_def rep_match_def)
  have "\<exists>s1 xs. ?k s1 = Some res \<and> rest s = xs @ rest s1 \<and> pos s1 = pos s + length xs \<and>
           1 \<le> length xs \<and> list_all (atom_match ic ?a) xs \<and> caps s1 = caps s"
    by (rule rep_from_consumes[OF r refl]) simp
  then obtain s1 xs where
    x: "?k s1 = Some res" "rest s = xs @ rest s1" "pos s1 = pos s + length xs"
       "1 \<le> length xs" "list_all (atom_match ic ?a) xs"
    by blast
  from num_run_token[OF x(4,5)] have "numeric_token xs" by simp
  with x(1,2,3) show ?thesis
    by (intro exI[of _ "s1\<lparr>caps := (caps s1)(1 := Some (take (pos s1 - pos s) (rest s)))\<rparr>"]
              exI[of _ xs]) simp
qed

lemma rx_snum_captures:
  assumes "rx_match ic rx_snum k s = Some res"
  shows "\<exists>s' tok. k s' = Some res \<and> caps s' 1 = Some tok \<and> numeric_token tok"
proof -
  let ?a = "Cls False [Rg CHR ''0'' CHR ''9'', Ch CHR ''.'']"
  let ?k = "\<lambda>s'. k (s'\<lparr>caps := (caps s')(1 := Some (take (pos s' - pos s) (rest s)))\<rparr>)"
  let ?upd = "\<lambda>s1. s1\<lparr>caps := (caps s1)(1 := Some (take (pos s1 - pos s) (rest s)))\<rparr>"
  from assms consider
      (minus) c cs where "rest s = c # cs" "c = 45"
        "rep_from ic ?a True 1 None ?k (advance s) (rest (advance s)) = Some res"
    | (plain) "rep_from ic ?a True 1 None ?k s (rest s) = Some res"
    by (auto simp: rx_snum_def rep_match_def canon_def split: option.splits list.splits if_splits)
  then show ?thesis
  proof cases
    case minus
    have "\<exists>s1 xs. ?k s1 = Some res \<and> rest (advance s) = xs @ rest s1 \<and>
             pos s1 = pos (advance s) + length xs \<and>
             1 \<le> length xs \<and> list_all (atom_match ic ?a) xs \<and> caps s1 = caps (advance s)"
      by (rule rep_from_consumes[OF minus(3) refl]) simp
    then obtain s1 xs where
      x: "?k s1 = Some res" "rest (advance s) = xs @ rest s1" "pos s1 = pos (advance s) + length xs"
         "1 \<le> length xs" "list_all (atom_match ic ?a) xs"
      by blast
    from minus(1) have adv: "rest (advance s) = cs" "pos (advance s) = Suc (pos s)"
      by (simp_all add: advance_def)
    from num_run_token[OF x(4,5)] have t: "numeric_token (45 # xs)" by simp
    from x(2,3) adv minus(1,2) have "take (pos s1 - pos s) (rest s) = 45 # xs" by simp
    with x(1) t show ?thesis
      by (intro exI[of _ "?upd s1"] exI[of _ "45 # xs"]) simp
  next
    case plain
    have "\<exists>s1 xs. ?k s1 = Some res \<and> rest s = xs @ rest s1 \<and> pos s1 = pos s + length xs \<and>
             1 \<le> length xs \<and> list_all (atom_match ic ?a) xs \<and> caps s1 = caps s"
      by (rule rep_from_consumes[OF plain refl]) simp
    then obtain s1 xs where
      x: "?k s1 = Some res" "rest s = xs @ rest s1" "pos s1 = pos s + length xs"
         "1 \<le> length xs" "list_all (atom_match ic ?a) xs"
      by blast
    from num_run_token[OF x(4,5)] have "numeric_token xs" by simp
    with x(1,2,3) show ?thesis
      by (intro exI[of _ "?upd s1"] exI[of _ xs]) simp
  qed
qed

lemma captures_token_sound:
  "captures_token r \<Longrightarrow> rx_match ic r Some s = Some res \<Longrightarrow>
   \<exists>tok. caps res 1 = Some tok \<and> numeric_token tok"
proof (induction r arbitrary: s rule: captures_token.induct)
  case (1 r r')
  show ?case
  proof (cases "r = rx_num \<or> r = rx_snum")
    case True
    from 1(3) have m: "rx_match ic r (rx_match ic r' Some) s = Some res" by simp
    from True m rx_num_captures[of ic "rx_match ic r' Some" s res]
         rx_snum_captures[of ic "rx_match ic r' Some" s res]
    obtain s' tok where
      a: "rx_match ic r' Some s' = Some res" "caps s' 1 = Some tok" "numeric_token tok"
      by blast
    from True 1(2) have "\<not> has_grp 1 r'" by simp
    with rx_match_reaches[OF a(1), of 1] have "caps res 1 = caps s' 1" by auto
    with a show ?thesis by simp
  next
    case False
    from 1(3) have "rx_match ic r (rx_match ic r' Some) s = Some res" by simp
    from rx_match_reaches[OF this, of 1] obtain s' where "rx_match ic r' Some s' = Some res"
      by blast
    moreover from False 1(2) have "captures_token r'" by simp
    ultimately show ?thesis using 1(1)[OF False] by blast
  qed
qed simp_all

lemma search_token:
  "search ic r y i p cs = Some (mt, e) \<Longrightarrow> captures_token r \<Longrightarrow>
   \<exists>tok. m1 mt = Some tok \<and> numeric_token tok"
proof (induction ic r y i p cs rule: search.induct)
  case (1 ic r y i p cs)
  show ?case
  proof (cases "rx_match ic r Some \<lparr>pos = i, prev = p, rest = cs, caps = (\<lambda>n. None)\<rparr>")
    case None
    with "1.prems" obtain c cs' where c: "cs = c # cs'" "\<not> y"
      "search ic r y (Suc i) (Some c) cs' = Some (mt, e)"
      by (auto split: if_splits list.splits)
    from "1.IH"[OF None c(2,1,3) "1.prems"(2)] show ?thesis .
  next
    case (Some s')
    with "1.prems"(1) have "m1 mt = caps s' 1" by auto
    with captures_token_sound[OF "1.prems"(2) Some] show ?thesis by simp
  qed
qed

lemma RegExp_exec_token:
  assumes "fst (RegExp_exec R t) = Some mt" and "captures_token (source R)"
  shows "\<exists>tok. m1 mt = Some tok \<and> numeric_token tok"
proof -
  from assms(1) obtain i p cs e where
    "search (ignoreCase R) (source R) (sticky R) i p cs = Some (mt, e)"
    by (auto simp: RegExp_exec_def Let_def simp del: search.simps
             split: if_splits option.splits)
  from search_token[OF this assms(2)] show ?thesis .
qed

text \<open>Every numeric rule of the registry has the shape, so it captures a numeric token.\<close>

lemma FIELD_SPECS_token_rules: "list_all token_rules FIELD_SPECS"
  by code_simp

lemma FIELD_SPECS_token:
  assumes "spec \<in> set FIELD_SPECS" "key spec \<notin> {Rhythm, BP_sys, BP_dia}"
    "R \<in> set (patterns spec)" "fst (RegExp_exec R t) = Some mt"
  shows "\<exists>tok. m1 mt = Some tok \<and> numeric_token tok"
proof -
  from FIELD_SPECS_token_rules assms(1) have "token_rules spec" by (simp add: list_all_iff)
  with assms(2,3) have "captures_token (source R)" by (auto simp: token_rules_def list_all_iff)
  with assms(4) show ?thesis by (rule RegExp_exec_token)
qed

subsection \<open>Malformed tokens and tokens of value 0\<close>

text \<open>
  On a numeric token \<open>toNum\<close> strips nothing; \<open>Number\<close> reads a token that is not a
  decimal numeral as NaN, a decimal numeral as a number, and one whose digits are all
  \<open>0\<close> as zero.
\<close>

lemma toNum_numeric_token:
  "numeric_token tok \<Longrightarrow> toNum (Some tok) = Some (Number_dec tok)"
proof -
  assume "numeric_token tok"
  then have "filter (\<lambda>c. is_digit c \<or> c = 46 \<or> c = 43 \<or> c = 45) tok = tok"
    by (auto simp: numeric_token_def list_all_iff intro!: filter_True)
  then show ?thesis by (simp add: toNum_def)
qed

lemma Number_dec_body:
  assumes "tok \<noteq> []" "hd tok \<noteq> 43"
  shows "(if hd tok = 45 \<or> hd tok = 43 then tl tok else tok) = decimal_body tok"
  using assms by (cases tok) (auto simp: decimal_body_def)

lemma Number_dec_unfold:
  assumes ne: "tok \<noteq> []" and np: "hd tok \<noteq> 43"
  shows "Number_dec tok =
     (case dropWhile is_digit (decimal_body tok) of
        [] \<Rightarrow> if takeWhile is_digit (decimal_body tok) = [] then NaN
              else to_double (hd tok = 45)
                     (of_nat (digits_val (takeWhile is_digit (decimal_body tok))))
      | c # fp \<Rightarrow>
          if c = 46 \<and> list_all is_digit fp \<and> takeWhile is_digit (decimal_body tok) @ fp \<noteq> []
          then to_double (hd tok = 45)
                 (of_nat (digits_val (takeWhile is_digit (decimal_body tok) @ fp)) / 10 ^ length fp)
          else NaN)"
proof -
  have "Number_dec tok =
     (let neg = (hd tok = 45);
          body = decimal_body tok;
          ip = takeWhile is_digit body;
          r = dropWhile is_digit body
      in case r of
           [] \<Rightarrow> if ip = [] then NaN else to_double neg (of_nat (digits_val ip))
         | c # fp \<Rightarrow>
             if c = 46 \<and> list_all is_digit fp \<and> ip @ fp \<noteq> []
             then to_double neg (of_nat (digits_val (ip @ fp)) / 10 ^ length fp)
             else NaN)"
    unfolding Number_dec_def Number_dec_body[OF ne np] using ne by (rule if_not_P)
  then show ?thesis unfolding Let_def .
qed

lemma Number_dec_malformed:
  assumes ne: "tok \<noteq> []" and np: "hd tok \<noteq> 43" and mal: "\<not> decimal_literal tok"
  shows "Number_dec tok = NaN"
proof (rule ccontr)
  assume nn: "Number_dec tok \<noteq> NaN"
  define ip where "ip = takeWhile is_digit (decimal_body tok)"
  define r where "r = dropWhile is_digit (decimal_body tok)"
  have split: "decimal_body tok = ip @ r" by (simp add: ip_def r_def)
  have ipd: "list_all is_digit ip" by (auto simp: ip_def list_all_iff dest: set_takeWhileD)
  have nd: "Number_dec tok =
     (case r of
        [] \<Rightarrow> if ip = [] then NaN else to_double (hd tok = 45) (of_nat (digits_val ip))
      | c # fp \<Rightarrow>
          if c = 46 \<and> list_all is_digit fp \<and> ip @ fp \<noteq> []
          then to_double (hd tok = 45) (of_nat (digits_val (ip @ fp)) / 10 ^ length fp)
          else NaN)"
    unfolding ip_def r_def by (rule Number_dec_unfold[OF ne np])
  have nodot: "filter (\<lambda>c. c = 46) xs = []" if "list_all is_digit xs" for xs :: "nat list"
    using that by (auto simp: list_all_iff filter_empty_conv is_digit_def)
  have "decimal_literal tok"
  proof (cases r)
    case Nil
    with nn nd have "ip \<noteq> []" by (auto split: if_splits)
    then have "list_ex is_digit ip" using ipd by (cases ip) auto
    moreover have "list_all (\<lambda>c. is_digit c \<or> c = 46) ip" using ipd by (auto simp: list_all_iff)
    ultimately show ?thesis
      using nodot[OF ipd] Nil split by (simp add: decimal_literal_def)
  next
    case (Cons c fp)
    with nn nd have c: "c = 46" and fpd: "list_all is_digit fp" and nz: "ip @ fp \<noteq> []"
      by (auto split: if_splits)
    have "list_all (\<lambda>c. is_digit c \<or> c = 46) (ip @ 46 # fp)"
      using ipd fpd by (auto simp: list_all_iff)
    moreover have "length (filter (\<lambda>c. c = 46) (ip @ 46 # fp)) \<le> 1"
      using nodot[OF ipd] nodot[OF fpd] by simp
    moreover have "list_ex is_digit (ip @ 46 # fp)"
      using nz ipd fpd by (cases ip; cases fp) auto
    ultimately show ?thesis using Cons c split by (simp add: decimal_literal_def)
  qed
  with mal show False by simp
qed

lemma digits_val_zeros: "list_all (\<lambda>c. c = 48) ds \<Longrightarrow> digits_val ds = 0"
proof -
  have "list_all (\<lambda>c. c = 48) ds \<Longrightarrow> foldl (\<lambda>a c. 10 * a + (c - 48)) (0::nat) ds = 0"
    by (induction ds) simp_all
  then show "list_all (\<lambda>c. c = 48) ds \<Longrightarrow> digits_val ds = 0" by (simp add: digits_val_def)
qed

lemma to_double_zero [simp]: "to_double s 0 = Fin s 0"
  by (simp add: to_double_def)

lemma Number_dec_zero:
  assumes "zero_literal tok"
  shows "is_zero (Number_dec tok)"
proof -
  from assms have dl: "decimal_literal tok" and z: "list_all (\<lambda>c. c = 48 \<or> c = 46 \<or> c = 45) tok"
    by (simp_all add: zero_literal_def)
  from dl have ne: "tok \<noteq> []" by (auto simp: decimal_literal_def decimal_body_def)
  from z ne have np: "hd tok \<noteq> 43" by (cases tok) auto
  define ip where "ip = takeWhile is_digit (decimal_body tok)"
  define r where "r = dropWhile is_digit (decimal_body tok)"
  have split: "decimal_body tok = ip @ r" by (simp add: ip_def r_def)
  have ipd: "list_all is_digit ip" by (auto simp: ip_def list_all_iff dest: set_takeWhileD)
  have nd: "Number_dec tok =
     (case r of
        [] \<Rightarrow> if ip = [] then NaN else to_double (hd tok = 45) (of_nat (digits_val ip))
      | c # fp \<Rightarrow>
          if c = 46 \<and> list_all is_digit fp \<and> ip @ fp \<noteq> []
          then to_double (hd tok = 45) (of_nat (digits_val (ip @ fp)) / 10 ^ length fp)
          else NaN)"
    unfolding ip_def r_def by (rule Number_dec_unfold[OF ne np])
  have sub: "set (decimal_body tok) \<subseteq> set tok" by (cases tok) (auto simp: decimal_body_def)
  have zd: "list_all (\<lambda>c. c = 48) xs"
    if xs: "set xs \<subseteq> set (decimal_body tok)" "list_all is_digit xs" for xs
  proof -
    have "c = 48" if "c \<in> set xs" for c
    proof -
      from that xs sub have "c \<in> set tok" "is_digit c" by (auto simp: list_all_iff)
      with z have "(c = 48 \<or> c = 46 \<or> c = 45) \<and> is_digit c" by (simp add: list_all_iff)
      then show ?thesis by (auto simp: is_digit_def)
    qed
    then show ?thesis by (simp add: list_all_iff)
  qed
  have ips: "set ip \<subseteq> set (decimal_body tok)" by (subst split) simp
  from dl split have all: "list_all (\<lambda>c. is_digit c \<or> c = 46) (ip @ r)"
    and cnt: "length (filter (\<lambda>c. c = 46) (ip @ r)) \<le> 1"
    and ex: "list_ex is_digit (ip @ r)"
    by (simp_all add: decimal_literal_def)
  show ?thesis
  proof (cases r)
    case Nil
    with ex have "ip \<noteq> []" by auto
    with Nil nd zd[OF ips ipd] show ?thesis by (simp add: digits_val_zeros)
  next
    case (Cons c fp)
    have "\<not> is_digit c"
      using Cons hd_dropWhile[of is_digit "decimal_body tok"] by (simp add: r_def)
    with all Cons have c: "c = 46" by simp
    from cnt c Cons have "filter (\<lambda>c. c = 46) fp = []" by simp
    with all Cons have fpd: "list_all is_digit fp"
      by (auto simp: list_all_iff filter_empty_conv)
    from ex c Cons have nz: "ip @ fp \<noteq> []" by (auto simp: is_digit_def)
    have fps: "set fp \<subseteq> set (decimal_body tok)" using Cons by (subst split) auto
    have "list_all (\<lambda>c. c = 48) (ip @ fp)" using zd[OF ips ipd] zd[OF fps fpd] by simp
    with Cons c fpd nz nd show ?thesis by (simp add: digits_val_zeros)
  qed
qed

lemma FIELD_SPECS_normalize:
  assumes "spec \<in> set FIELD_SPECS" "key spec \<notin> {Rhythm, BP_sys, BP_dia}"
  shows "normalize spec v u b m \<in>
           {normalize_velocity v u, normalize_eprime v u, normalize_round 0 v,
            normalize_round 1 v, normalize_round 2 v}"
  using assms by (auto simp: FIELD_SPECS_def spec_of_def)

lemma Number_dec_decimal:
  assumes dl: "decimal_literal tok" and np: "hd tok \<noteq> 43"
  shows "\<exists>ds n. Number_dec tok = to_double (hd tok = 45) (of_nat (digits_val ds) / 10 ^ n) \<and>
                set ds \<subseteq> set tok \<and> list_all is_digit ds"
proof -
  from dl have ne: "tok \<noteq> []" by (auto simp: decimal_literal_def decimal_body_def)
  define ip where "ip = takeWhile is_digit (decimal_body tok)"
  define r where "r = dropWhile is_digit (decimal_body tok)"
  have split: "decimal_body tok = ip @ r" by (simp add: ip_def r_def)
  have ipd: "list_all is_digit ip" by (auto simp: ip_def list_all_iff dest: set_takeWhileD)
  have nd: "Number_dec tok =
     (case r of
        [] \<Rightarrow> if ip = [] then NaN else to_double (hd tok = 45) (of_nat (digits_val ip))
      | c # fp \<Rightarrow>
          if c = 46 \<and> list_all is_digit fp \<and> ip @ fp \<noteq> []
          then to_double (hd tok = 45) (of_nat (digits_val (ip @ fp)) / 10 ^ length fp)
          else NaN)"
    unfolding ip_def r_def by (rule Number_dec_unfold[OF ne np])
  have sub: "set (decimal_body tok) \<subseteq> set tok" by (cases tok) (auto simp: decimal_body_def)
  have ips: "set ip \<subseteq> set tok" using sub by (subst (asm) split) simp
  from dl split have all: "list_all (\<lambda>c. is_digit c \<or> c = 46) (ip @ r)"
    and cnt: "length (filter (\<lambda>c. c = 46) (ip @ r)) \<le> 1"
    and ex: "list_ex is_digit (ip @ r)"
    by (simp_all add: decimal_literal_def)
  show ?thesis
  proof (cases r)
    case Nil
    with ex have "ip \<noteq> []" by auto
    with Nil nd have "Number_dec tok = to_double (hd tok = 45) (of_nat (digits_val ip) / 10 ^ 0)"
      by simp
    with ips ipd show ?thesis by blast
  next
    case (Cons c fp)
    have "\<not> is_digit c"
      using Cons hd_dropWhile[of is_digit "decimal_body tok"] by (simp add: r_def)
    with all Cons have c: "c = 46" by simp
    from cnt c Cons have "filter (\<lambda>c. c = 46) fp = []" by simp
    with all Cons have fpd: "list_all is_digit fp"
      by (auto simp: list_all_iff filter_empty_conv)
    from ex c Cons have nz: "ip @ fp \<noteq> []" by (auto simp: is_digit_def)
    have fps: "set fp \<subseteq> set tok" using sub Cons by (subst (asm) split) auto
    from Cons c fpd nz nd have
      "Number_dec tok = to_double (hd tok = 45) (of_nat (digits_val (ip @ fp)) / 10 ^ length fp)"
      by simp
    moreover have "set (ip @ fp) \<subseteq> set tok" "list_all is_digit (ip @ fp)"
      using ips fps ipd fpd by simp_all
    ultimately show ?thesis by blast
  qed
qed

lemma isNaN_iff: "isNaN x \<longleftrightarrow> x = NaN"
  by (cases x) simp_all

lemma Number_dec_well_formed:
  "decimal_literal tok \<Longrightarrow> hd tok \<noteq> 43 \<Longrightarrow> \<not> isNaN (Number_dec tok)"
proof -
  assume "decimal_literal tok" "hd tok \<noteq> 43"
  from Number_dec_decimal[OF this] obtain ds n where
    "Number_dec tok = to_double (hd tok = 45) (of_nat (digits_val ds) / 10 ^ n)" by blast
  then show ?thesis by (simp add: isNaN_iff)
qed

lemma numeric_token_hd: "numeric_token tok \<Longrightarrow> tok \<noteq> [] \<and> hd tok \<noteq> 43"
  by (cases tok) (auto simp: numeric_token_def is_digit_def)

lemma toNum_malformed:
  "numeric_token tok \<Longrightarrow> \<not> decimal_literal tok \<Longrightarrow> toNum (Some tok) = Some NaN"
  using numeric_token_hd[of tok] by (simp add: toNum_numeric_token Number_dec_malformed)

lemma toNum_zero:
  "numeric_token tok \<Longrightarrow> zero_literal tok \<Longrightarrow> \<exists>z. toNum (Some tok) = Some z \<and> is_zero z"
  by (simp add: toNum_numeric_token Number_dec_zero)

lemma toNum_well_formed:
  "numeric_token tok \<Longrightarrow> decimal_literal tok \<Longrightarrow> \<exists>z. toNum (Some tok) = Some z \<and> \<not> isNaN z"
  using numeric_token_hd[of tok] by (simp add: toNum_numeric_token Number_dec_well_formed)

lemma round_js_number:
  "\<not> isNaN z \<Longrightarrow> d \<le> 100 \<Longrightarrow> \<exists>x. round_js (Some z) d = Inr (Some (Num x))"
  by (simp add: round_js_def)

lemma js_scaled_not_NaN:
  "\<not> isNaN z \<Longrightarrow> \<not> isNaN (js_mul z (lit_num 100)) \<and> \<not> isNaN (js_div z (lit_num 100))"
  by (cases z) (simp_all add: lit_num_def isNaN_iff)

lemma normalize_well_formed:
  assumes "toNum v = Some z" "\<not> isNaN z"
  shows "\<exists>x. normalize_velocity v u = Inr (Some (Num x))"
    and "\<exists>x. normalize_eprime v u = Inr (Some (Num x))"
    and "d \<le> 100 \<Longrightarrow> \<exists>x. normalize_round d v = Inr (Some (Num x))"
  using assms js_scaled_not_NaN[OF assms(2)]
  by (simp_all add: normalize_velocity_def normalize_eprime_def normalize_round_def round_js_number)

subsection \<open>The combined blood-pressure rule\<close>

text \<open>Both groups of the rule capture a run of digits.\<close>

lemma digit_atom_chars: "atom_match ic (Cls False [Rg CHR ''0'' CHR ''9'']) c \<Longrightarrow> is_digit c"
  by (auto simp: canon_def lower_def is_digit_def split: if_splits)

lemma digit_group_captures:
  assumes "rx_match ic (Grp n (Rep (Cls False [Rg CHR ''0'' CHR ''9'']) 2 (Some 3) True)) k s = Some res"
  shows "\<exists>s' tok. k s' = Some res \<and> caps s' n = Some tok \<and> tok \<noteq> [] \<and> list_all is_digit tok \<and>
           (\<forall>m. m \<noteq> n \<longrightarrow> caps s' m = caps s m)"
proof -
  let ?a = "Cls False [Rg CHR ''0'' CHR ''9'']"
  let ?upd = "\<lambda>s'. s'\<lparr>caps := (caps s')(n := Some (take (pos s' - pos s) (rest s)))\<rparr>"
  from assms have r: "rep_from ic ?a True 2 (Some 3) (\<lambda>s'. k (?upd s')) s (rest s) = Some res"
    by (simp add: rep_match_def)
  have "\<exists>s1 xs. k (?upd s1) = Some res \<and> rest s = xs @ rest s1 \<and> pos s1 = pos s + length xs \<and>
           2 \<le> length xs \<and> list_all (atom_match ic ?a) xs \<and> caps s1 = caps s"
    by (rule rep_from_consumes[OF r refl]) simp
  then obtain s1 xs where
    x: "k (?upd s1) = Some res" "rest s = xs @ rest s1" "pos s1 = pos s + length xs"
       "2 \<le> length xs" "list_all (atom_match ic ?a) xs" "caps s1 = caps s"
    by blast
  from x(5) have "\<forall>c\<in>set xs. atom_match ic ?a c" unfolding list_all_iff .
  then have "\<forall>c\<in>set xs. is_digit c" using digit_atom_chars by blast
  then have "list_all is_digit xs" unfolding list_all_iff .
  moreover from x(4) have "xs \<noteq> []" by auto
  ultimately show ?thesis using x(1,2,3,6)
    by (intro exI[of _ "?upd s1"] exI[of _ xs]) simp
qed

lemma rx_seq_reaches:
  "rx_match ic (Seq r r') k s = Some res \<Longrightarrow>
   \<exists>s'. rx_match ic r' k s' = Some res \<and> (\<not> has_grp n r \<longrightarrow> caps s' n = caps s n)"
  using rx_match_reaches[of ic r "rx_match ic r' k" s res n] by simp

lemma BP_captures:
  assumes "rx_match ic (source (hd BP_patterns)) Some s = Some res"
  shows "\<exists>t1 t2. caps res 1 = Some t1 \<and> caps res 2 = Some t2 \<and> t1 \<noteq> [] \<and> t2 \<noteq> [] \<and>
           list_all is_digit t1 \<and> list_all is_digit t2"
proof -
  let ?G = "\<lambda>n. Grp n (Rep (Cls False [Rg CHR ''0'' CHR ''9'']) 2 (Some 3) True)"
  let ?A = "alts (Lit ''BP'') [seqs [Lit ''Blood'', rx_ws, Lit ''pressure'']]"
  let ?R3 = "Seq WordB Eps"
  let ?R2 = "Seq rx_ws (Seq (Lit ''/'') (Seq rx_ws (Seq (?G 2) ?R3)))"
  have src: "source (hd BP_patterns) =
      Seq WordB (Seq ?A (Seq rx_ws (Seq rx_sep (Seq rx_ws (Seq (?G 1) ?R2)))))"
    by (simp add: BP_patterns_def rxi_def seqs_def)
  have ng: "\<not> has_grp 1 rx_ws" "\<not> has_grp 1 (Lit ''/'')" by (simp_all add: rx_ws_def)
  from assms have
    "rx_match ic (Seq WordB (Seq ?A (Seq rx_ws (Seq rx_sep (Seq rx_ws (Seq (?G 1) ?R2)))))) Some s =
       Some res"
    unfolding src .
  from rx_seq_reaches[OF this, of 1] obtain s1 where
    "rx_match ic (Seq ?A (Seq rx_ws (Seq rx_sep (Seq rx_ws (Seq (?G 1) ?R2))))) Some s1 = Some res"
    by blast
  from rx_seq_reaches[OF this, of 1] obtain s2 where
    "rx_match ic (Seq rx_ws (Seq rx_sep (Seq rx_ws (Seq (?G 1) ?R2)))) Some s2 = Some res" by blast
  from rx_seq_reaches[OF this, of 1] obtain s3 where
    "rx_match ic (Seq rx_sep (Seq rx_ws (Seq (?G 1) ?R2))) Some s3 = Some res" by blast
  from rx_seq_reaches[OF this, of 1] obtain s4 where
    "rx_match ic (Seq rx_ws (Seq (?G 1) ?R2)) Some s4 = Some res" by blast
  from rx_seq_reaches[OF this, of 1] obtain s5 where
    "rx_match ic (Seq (?G 1) ?R2) Some s5 = Some res" by blast
  then have "rx_match ic (?G 1) (rx_match ic ?R2 Some) s5 = Some res" by simp
  from digit_group_captures[OF this] obtain s6 t1 where
    g1: "rx_match ic ?R2 Some s6 = Some res" and t1: "caps s6 1 = Some t1" "t1 \<noteq> []" "list_all is_digit t1"
    by blast
  from rx_seq_reaches[OF g1, of 1] t1(1) ng obtain s7 where
    s7: "rx_match ic (Seq (Lit ''/'') (Seq rx_ws (Seq (?G 2) ?R3))) Some s7 = Some res"
        "caps s7 1 = Some t1"
    by metis
  from rx_seq_reaches[OF s7(1), of 1] s7(2) ng obtain s8 where
    s8: "rx_match ic (Seq rx_ws (Seq (?G 2) ?R3)) Some s8 = Some res" "caps s8 1 = Some t1"
    by metis
  from rx_seq_reaches[OF s8(1), of 1] s8(2) ng obtain s9 where
    s9: "rx_match ic (Seq (?G 2) ?R3) Some s9 = Some res" "caps s9 1 = Some t1"
    by metis
  from s9(1) have "rx_match ic (?G 2) (rx_match ic ?R3 Some) s9 = Some res" by simp
  from digit_group_captures[OF this] obtain s10 t2 where
    g2: "rx_match ic ?R3 Some s10 = Some res" and
    t2: "caps s10 2 = Some t2" "t2 \<noteq> []" "list_all is_digit t2" and
    o: "\<forall>m. m \<noteq> 2 \<longrightarrow> caps s10 m = caps s9 m"
    by blast
  from o s9(2) have k1: "caps s10 1 = Some t1" by simp
  from rx_match_reaches[OF g2, of 1] k1 have "caps res 1 = Some t1" by auto
  moreover from rx_match_reaches[OF g2, of 2] t2(1) have "caps res 2 = Some t2" by auto
  ultimately show ?thesis using t1 t2 by blast
qed

lemma search_result:
  "search ic r y i p cs = Some (mt, e) \<Longrightarrow>
   \<exists>s s'. rx_match ic r Some s = Some s' \<and> m1 mt = caps s' 1 \<and> m2 mt = caps s' 2"
proof (induction ic r y i p cs rule: search.induct)
  case (1 ic r y i p cs)
  show ?case
  proof (cases "rx_match ic r Some \<lparr>pos = i, prev = p, rest = cs, caps = (\<lambda>n. None)\<rparr>")
    case None
    with "1.prems" obtain c cs' where c: "cs = c # cs'" "\<not> y"
      "search ic r y (Suc i) (Some c) cs' = Some (mt, e)"
      by (auto split: if_splits list.splits)
    from "1.IH"[OF None c(2,1,3)] show ?thesis .
  next
    case (Some s')
    with "1.prems"(1) have "m1 mt = caps s' 1" "m2 mt = caps s' 2" by auto
    with Some show ?thesis by blast
  qed
qed

lemma RegExp_exec_result:
  assumes "fst (RegExp_exec R t) = Some mt"
  shows "\<exists>s s'. rx_match (ignoreCase R) (source R) Some s = Some s' \<and>
           m1 mt = caps s' 1 \<and> m2 mt = caps s' 2"
proof -
  from assms obtain i p cs e where
    "search (ignoreCase R) (source R) (sticky R) i p cs = Some (mt, e)"
    by (auto simp: RegExp_exec_def Let_def simp del: search.simps
             split: if_splits option.splits)
  from search_result[OF this] show ?thesis .
qed

lemma BP_tokens:
  assumes "fst (RegExp_exec (hd BP_patterns) t) = Some mt"
  shows "\<exists>t1 t2. m1 mt = Some t1 \<and> m2 mt = Some t2 \<and> t1 \<noteq> [] \<and> t2 \<noteq> [] \<and>
           list_all is_digit t1 \<and> list_all is_digit t2"
proof -
  from RegExp_exec_result[OF assms] obtain s s' where
    "rx_match (ignoreCase (hd BP_patterns)) (source (hd BP_patterns)) Some s = Some s'"
    "m1 mt = caps s' 1" "m2 mt = caps s' 2" by blast
  with BP_captures[OF this(1)] show ?thesis by simp
qed

lemma digits_decimal:
  assumes "tok \<noteq> []" "list_all is_digit tok"
  shows "numeric_token tok" and "decimal_literal tok"
proof -
  from assms show "numeric_token tok" by (auto simp: numeric_token_def list_all_iff)
  from assms obtain c cs where tok: "tok = c # cs" by (cases tok) auto
  with assms(2) have "c \<noteq> 45" by (auto simp: is_digit_def)
  with tok have b: "decimal_body tok = tok" by (simp add: decimal_body_def)
  have "filter (\<lambda>c. c = 46) tok = []"
    using assms(2) by (auto simp: list_all_iff filter_empty_conv is_digit_def)
  moreover have "list_ex is_digit tok" using assms tok by simp
  moreover have "list_all (\<lambda>c. is_digit c \<or> c = 46) tok" using assms(2) by (auto simp: list_all_iff)
  ultimately show "decimal_literal tok" by (simp add: decimal_literal_def b)
qed

subsection \<open>A settled field stays in the bag\<close>

lemma match_rules_present:
  assumes nbp: "\<not> bp_key (key spec)" and hit: "fst (RegExp_exec R t) = Some mt"
    and nz: "\<exists>v. normalize spec (m1 mt) (m2 mt) bag mt = Inr (Some v)"
  shows "R \<in> set rxs \<Longrightarrow> match_rules spec t rxs bag = Inr (bag', rs) \<Longrightarrow> bag' (key spec) \<noteq> None"
proof (induction rxs arbitrary: rs)
  case Nil
  then show ?case by simp
next
  case (Cons rx rxs)
  obtain m rx' where ex: "RegExp_exec rx t = (m, rx')" by (cases "RegExp_exec rx t")
  show ?case
  proof (cases "rx = R")
    case True
    with ex hit have "m = Some mt" by simp
    with Cons.prems(2) ex nz show ?thesis by (auto simp: Let_def)
  next
    case False
    with Cons.prems(1) have mem: "R \<in> set rxs" by simp
    from Cons.prems(2) ex nbp show ?thesis
      using Cons.IH[OF mem]
      by (auto simp: Let_def bp_key_def split: option.splits sum.splits prod.splits if_splits)
  qed
qed

lemma pass1_present:
  assumes "distinct (map key specs)" "spec \<in> set specs" "\<not> bp_key (key spec)"
    and hit: "\<And>b b' rs. match_rules spec t (patterns spec) b = Inr (b', rs) \<Longrightarrow> b' (key spec) \<noteq> None"
  shows "pass1 specs t bag = Inr (bag', specs') \<Longrightarrow> bag' (key spec) \<noteq> None"
  using assms(1,2)
proof (induction specs arbitrary: bag bag' specs')
  case Nil
  then show ?case by simp
next
  case (Cons s specs)
  from Cons.prems(1) obtain b2 rs b3 sp where
    m: "match_rules s t (patterns s) bag = Inr (b2, rs)" and
    p: "pass1 specs t b2 = Inr (b3, sp)" and b3: "bag' = b3"
    by (auto split: sum.splits prod.splits)
  show ?case
  proof (cases "s = spec")
    case True
    from hit m True have "b2 (key spec) \<noteq> None" by auto
    moreover have "\<forall>s'\<in>set specs. (key s' = key spec \<longrightarrow> patterns s' = []) \<and>
                     (bp_key (key s') \<longrightarrow> \<not> bp_key (key spec))"
      using Cons.prems(2) True assms(3) by (auto simp: image_iff)
    from pass1_frame[OF p this] have "b3 (key spec) = b2 (key spec)" .
    ultimately show ?thesis using b3 by simp
  next
    case False
    with Cons.prems(3) have "spec \<in> set specs" by simp
    moreover from Cons.prems(2) have "distinct (map key specs)" by simp
    ultimately show ?thesis using Cons.IH[OF p] b3 by simp
  qed
qed

lemma parsed_present:
  assumes "spec \<in> set FIELD_SPECS" "\<not> bp_key (key spec)" "R \<in> set (patterns spec)"
    and "fst (RegExp_exec R t) = Some mt"
    and "\<And>b. \<exists>v. normalize spec (m1 mt) (m2 mt) b mt = Inr (Some v)"
  shows "parsed t [key spec] \<noteq> [None]"
proof -
  from parse_split[of t] obtain b1 where
    p1: "pass1 FIELD_SPECS t Map.empty = Inr (b1, FIELD_SPECS)" and
    pr: "parseReport t = Inr (pass2 FIELD_SPECS b1, FIELD_SPECS)" by blast
  have h: "b' (key spec) \<noteq> None" if "match_rules spec t (patterns spec) b = Inr (b', rs)" for b b' rs
    using match_rules_present[OF assms(2,4) assms(5)[of b] assms(3) that] .
  have "b1 (key spec) \<noteq> None"
    using FIELD_SPECS_distinct assms(1,2) h p1 by (rule pass1_present)
  then obtain v where "b1 (key spec) = Some v" by blast
  then have "pass2 FIELD_SPECS b1 (key spec) = Some v" by (rule pass2_keeps)
  with pr show ?thesis by (simp add: parsed_def)
qed

lemma FIELD_SPECS_BP:
  assumes "spec \<in> set FIELD_SPECS" "bp_key (key spec)"
  shows "patterns spec = [hd BP_patterns]" and "normalize spec v u b m = Inr None"
  using assms by (auto simp: FIELD_SPECS_def spec_of_def bp_key_def BP_patterns_def)

lemma BP_stored:
  assumes bp: "bp_key (key spec)" and nz: "normalize spec (m1 mt) (m2 mt) bag mt = Inr None"
    and ex: "fst (RegExp_exec R t) = Some mt"
    and t1: "m1 mt = Some t1" "t1 \<noteq> []" "list_all is_digit t1"
    and t2: "m2 mt = Some t2" "t2 \<noteq> []" "list_all is_digit t2"
  shows "\<exists>x y R'. match_rules spec t (R # rxs) bag = Inr (bag(BP_sys \<mapsto> Num x, BP_dia \<mapsto> Num y), R' # rxs) \<and>
           (zero_literal t1 \<longrightarrow> x = Fin False 0) \<and> (zero_literal t2 \<longrightarrow> y = Fin False 0)"
proof -
  obtain m R' where e: "RegExp_exec R t = (m, R')" by (cases "RegExp_exec R t")
  with ex have m: "m = Some mt" by simp
  from digits_decimal[OF t1(2,3)] toNum_well_formed[of t1] obtain z1 where
    z1: "toNum (Some t1) = Some z1" "\<not> isNaN z1" by blast
  from digits_decimal[OF t2(2,3)] toNum_well_formed[of t2] obtain z2 where
    z2: "toNum (Some t2) = Some z2" "\<not> isNaN z2" by blast
  from round_js_number[OF z1(2), of 0] obtain x where x: "round_js (Some z1) 0 = Inr (Some (Num x))"
    by auto
  from round_js_number[OF z2(2), of 0] obtain y where y: "round_js (Some z2) 0 = Inr (Some (Num y))"
    by auto
  have zx: "x = Fin False 0" if "zero_literal t1"
  proof -
    from toNum_zero[OF digits_decimal(1)[OF t1(2,3)] that] z1(1) have "is_zero z1" by simp
    from round_js_zero[OF this, of 0] x show ?thesis by simp
  qed
  have zy: "y = Fin False 0" if "zero_literal t2"
  proof -
    from toNum_zero[OF digits_decimal(1)[OF t2(2,3)] that] z2(1) have "is_zero z2" by simp
    from round_js_zero[OF this, of 0] y show ?thesis by simp
  qed
  from bp nz e m t1 t2 z1(1) z2(1) x y have
    "match_rules spec t (R # rxs) bag = Inr (bag(BP_sys \<mapsto> Num x, BP_dia \<mapsto> Num y), R' # rxs)"
    by (simp add: Let_def bp_key_def truthy_def)
  with zx zy show ?thesis by blast
qed

subsection \<open>Totality\<close>




section \<open>The claims\<close>

text \<open>
  Claim C1. For every bag \<open>b1\<close> the second pass starts from, with \<open>b\<close> the bag it returns,
  each derived field that is absent from \<open>b1\<close> holds in \<open>b\<close> exactly what its documented
  formula gives on the operands in \<open>b\<close>: the E/A ratio is E \<open>\<div>\<close> A to 2 decimals (both
  present, A not zero); the average e\<open>'\<close> is the mean of septal and lateral to 2 decimals;
  each E/e\<open>'\<close> is E \<open>\<times>\<close> 100 \<open>\<div>\<close> e\<open>'\<close> to 2 decimals, the average one using the mean of
  septal and lateral when the average e\<open>'\<close> is absent; LAVI is LA volume \<open>\<div>\<close> BSA to 1
  decimal; the LA stiffness index is E/e\<open>'\<close> average \<open>\<div>\<close> LA reservoir strain to 2 decimals;
  PASP is \<open>4 \<times> TR_Vmax\<^sup>2 + RA pressure\<close> to 0 decimals. A formula whose operand is missing,
  whose denominator is zero or whose value is NaN leaves the field absent.
\<close>

theorem derived_fields_follow_formulas:
  assumes "b = pass2 FIELD_SPECS b1"
  shows "(b1 EA_ratio = None \<longrightarrow> b EA_ratio = spec_ratio 2 (b MV_E_m_s) (b MV_A_m_s)) \<and>
         (b1 eprime_avg_cm_s = None \<longrightarrow>
            b eprime_avg_cm_s =
              (case spec_mean (b eprime_septal_cm_s) (b eprime_lateral_cm_s) of
                 None \<Rightarrow> None | Some m \<Rightarrow> rounded 2 m)) \<and>
         (b1 E_over_eprime_septal = None \<longrightarrow>
            b E_over_eprime_septal = spec_ratio 2 (spec_cm_s (b MV_E_m_s)) (b eprime_septal_cm_s)) \<and>
         (b1 E_over_eprime_lateral = None \<longrightarrow>
            b E_over_eprime_lateral = spec_ratio 2 (spec_cm_s (b MV_E_m_s)) (b eprime_lateral_cm_s)) \<and>
         (b1 E_over_eprime_avg = None \<longrightarrow>
            b E_over_eprime_avg =
              spec_ratio 2 (spec_cm_s (b MV_E_m_s))
                (case b eprime_avg_cm_s of
                   Some v \<Rightarrow> Some v
                 | None \<Rightarrow> map_option Num (spec_mean (b eprime_septal_cm_s) (b eprime_lateral_cm_s)))) \<and>
         (b1 LAVI_ml_m2 = None \<longrightarrow> b LAVI_ml_m2 = spec_ratio 1 (b LA_volume_ml) (b BSA_m2)) \<and>
         (b1 LA_stiffness_index = None \<longrightarrow>
            b LA_stiffness_index = spec_ratio 2 (b E_over_eprime_avg) (b LA_reservoir_strain_pct)) \<and>
         (b1 PASP_mmHg = None \<longrightarrow> b PASP_mmHg = spec_PASP (b TR_Vmax_m_s) (b RA_pressure_mmHg))"
  unfolding assms
  by (simp add: pass2_EA_ratio [of b1] pass2_eprime_avg [of b1] pass2_E_over_eprime_septal [of b1]
      pass2_E_over_eprime_lateral [of b1] pass2_E_over_eprime_avg [of b1] pass2_LAVI [of b1]
      pass2_LA_stiffness [of b1] pass2_PASP [of b1])

text \<open>
  On the example bag (E 0.8, A 0.5, e\<open>'\<close> septal 6 and lateral 10, TR Vmax 2.8, RA
  pressure 5, LA volume 60, BSA 2, LA reservoir strain 25) no derived field is present,
  and the second pass derives E/A 1.6, average e\<open>'\<close> 8, E/e\<open>'\<close> 13.33, 8 and 10, LAVI 30,
  PASP 36 and LA stiffness 0.4.
\<close>

theorem derived_fields_follow_formulas_witness:
  "map example_bag derived_keys = [None, None, None, None, None, None, None, None] \<and>
   map (pass2 FIELD_SPECS example_bag) derived_keys =
     [Some (Num (to_double False (16 / 10))), Some (Num (Fin False 8)),
      Some (Num (to_double False (1333 / 100))), Some (Num (Fin False 8)),
      Some (Num (Fin False 10)), Some (Num (Fin False 30)), Some (Num (Fin False 36)),
      Some (Num (to_double False (4 / 10)))] \<and>
   pass2 FIELD_SPECS example_bag PASP_mmHg =
     spec_PASP (Some (Num (to_double False (28 / 10)))) (Some (Num (Fin False 5)))"
proof -
  have absent: "map example_bag derived_keys = [None, None, None, None, None, None, None, None]"
    by code_simp
  have vals: "map (pass2 FIELD_SPECS example_bag) derived_keys =
     [Some (Num (to_double False (16 / 10))), Some (Num (Fin False 8)),
      Some (Num (to_double False (1333 / 100))), Some (Num (Fin False 8)),
      Some (Num (Fin False 10)), Some (Num (Fin False 30)), Some (Num (Fin False 36)),
      Some (Num (to_double False (4 / 10)))]"
    by code_simp
  have ops: "map (pass2 FIELD_SPECS example_bag) [TR_Vmax_m_s, RA_pressure_mmHg] =
     [Some (Num (to_double False (28 / 10))), Some (Num (Fin False 5))]"
    by code_simp
  from absent have "example_bag PASP_mmHg = None" by (simp add: derived_keys_def)
  with derived_fields_follow_formulas [OF refl, of example_bag] ops
  have "pass2 FIELD_SPECS example_bag PASP_mmHg =
          spec_PASP (Some (Num (to_double False (28 / 10)))) (Some (Num (Fin False 5)))"
    by simp
  with absent vals show ?thesis by simp
qed

text \<open>
  Claim C2. For every input text and every field key, an entry the first pass sets is the
  entry of that key in the bag \<open>parseReport\<close> returns: the second pass runs a derivation
  only for a key still absent (see \<open>derive_step_present\<close>), so it never overwrites it.
\<close>

theorem pass1_entry_never_overwritten:
  assumes "matched t [k] = [Some v]"
  shows "parsed t [k] = [Some v]"
proof -
  from parsed_matched [of t "[k]" "[k]"] obtain b1 where
    m: "matched t [k] = map b1 [k]" and p: "parsed t [k] = map (pass2 FIELD_SPECS b1) [k]"
    by blast
  from assms m have "b1 k = Some v" by simp
  then have "pass2 FIELD_SPECS b1 k = Some v" by (rule pass2_keeps)
  with p show ?thesis by simp
qed

text \<open>
  In \<open>MV E 1 MV A 2 E/A 3\<close> the E/A ratio is matched directly as 3, and it is still 3 in
  the returned bag, although E and A are both present (E \<open>\<div>\<close> A would be 0.5).
\<close>

theorem pass1_entry_never_overwritten_witness:
  "matched (u16 ''MV E 1 MV A 2 E/A 3'') [EA_ratio] = [Some (Num (Fin False 3))] \<and>
   parsed (u16 ''MV E 1 MV A 2 E/A 3'') [EA_ratio] = [Some (Num (Fin False 3))]"
proof -
  have h: "matched (u16 ''MV E 1 MV A 2 E/A 3'') [EA_ratio] = [Some (Num (Fin False 3))]"
    by code_simp
  from h pass1_entry_never_overwritten [OF h] show ?thesis by simp
qed

text \<open>
  Claim C3, amended. For every field and every input text, the rules of the field are
  tried in declared order, and the first rule that matches with a capture normalizing to a
  value other than \<open>null\<close> wins: the bag holds that value under the key of the field, and
  the rules after it are not consulted (they are returned as they were, whatever their
  flags). Rules before it that do not match, or that match with a capture normalizing to
  \<open>null\<close> (outside the combined blood-pressure match), are passed over.
\<close>

theorem first_settling_rule_wins:
  assumes "list_all (rule_passes spec t bag) pre"
    and "fst (RegExp_exec rx t) = Some mt"
    and "normalize spec (m1 mt) (m2 mt) bag mt = Inr (Some v)"
  shows "\<exists>rs. length rs = Suc (length pre) \<and>
           match_rules spec t (pre @ rx # post) bag = Inr (bag(key spec \<mapsto> v), rs @ post)"
proof -
  from assms(1) have "\<forall>r\<in>set pre. rule_passes spec t bag r" by (simp add: list_all_iff)
  from first_settling [OF this assms(2,3)] show ?thesis .
qed

text \<open>
  In \<open>MV E . and E wave 1.2\<close> the first rule of the mitral E velocity is passed over and
  the second rule settles the field with 1.2.
\<close>

theorem first_settling_rule_wins_witness:
  "list_all (rule_passes (hd FIELD_SPECS) two_rule_report Map.empty) [velocity_patterns ''E'' ! 0] \<and>
   fst (RegExp_exec (velocity_patterns ''E'' ! 1) two_rule_report) =
     Some \<lparr>m0 = u16 ''E wave 1.2'', m1 = Some (u16 ''1.2''), m2 = None\<rparr> \<and>
   normalize (hd FIELD_SPECS) (Some (u16 ''1.2'')) None Map.empty
     \<lparr>m0 = u16 ''E wave 1.2'', m1 = Some (u16 ''1.2''), m2 = None\<rparr> =
     Inr (Some (Num (to_double False (12 / 10)))) \<and>
   (\<exists>rs. length rs = Suc (length [velocity_patterns ''E'' ! 0]) \<and>
      match_rules (hd FIELD_SPECS) two_rule_report
        ([velocity_patterns ''E'' ! 0] @ velocity_patterns ''E'' ! 1 # []) Map.empty =
      Inr (Map.empty(key (hd FIELD_SPECS) \<mapsto> Num (to_double False (12 / 10))), rs @ []))"
proof -
  have a: "list_all (rule_passes (hd FIELD_SPECS) two_rule_report Map.empty) [velocity_patterns ''E'' ! 0]"
    by code_simp
  have b: "fst (RegExp_exec (velocity_patterns ''E'' ! 1) two_rule_report) =
     Some \<lparr>m0 = u16 ''E wave 1.2'', m1 = Some (u16 ''1.2''), m2 = None\<rparr>"
    by code_simp
  have c: "normalize (hd FIELD_SPECS) (Some (u16 ''1.2'')) None Map.empty
     \<lparr>m0 = u16 ''E wave 1.2'', m1 = Some (u16 ''1.2''), m2 = None\<rparr> =
     Inr (Some (Num (to_double False (12 / 10))))"
    by code_simp
  have c': "normalize (hd FIELD_SPECS)
      (m1 \<lparr>m0 = u16 ''E wave 1.2'', m1 = Some (u16 ''1.2''), m2 = None\<rparr>)
      (m2 \<lparr>m0 = u16 ''E wave 1.2'', m1 = Some (u16 ''1.2''), m2 = None\<rparr>) Map.empty
     \<lparr>m0 = u16 ''E wave 1.2'', m1 = Some (u16 ''1.2''), m2 = None\<rparr> =
     Inr (Some (Num (to_double False (12 / 10))))"
    using c by simp
  from first_settling_rule_wins [OF a b c', of "[]"] a b c show ?thesis by simp
qed

text \<open>
  Claim C3 as stated fails on \<open>MV E . and E wave 1.2\<close>: the first rule matches with the
  capture \<open>.\<close>, which normalizes to \<open>null\<close>; the loop goes on to the second rule, and the
  value stored is the second rule's capture 1.2.
\<close>

theorem first_matching_rule_not_final:
  "fst (RegExp_exec (velocity_patterns ''E'' ! 0) two_rule_report) =
     Some \<lparr>m0 = u16 ''MV E . '', m1 = Some (u16 ''.''), m2 = None\<rparr> \<and>
   normalize_velocity (Some (u16 ''.'')) None = Inr None \<and>
   fst (RegExp_exec (velocity_patterns ''E'' ! 1) two_rule_report) =
     Some \<lparr>m0 = u16 ''E wave 1.2'', m1 = Some (u16 ''1.2''), m2 = None\<rparr> \<and>
   normalize_velocity (Some (u16 ''1.2'')) None = Inr (Some (Num (to_double False (12 / 10)))) \<and>
   parsed two_rule_report [MV_E_m_s] = [Some (Num (to_double False (12 / 10)))]"
  by code_simp

text \<open>
  Claim C4. For every input text and every rule of a field other than the rhythm, the
  token the rule captures is never empty. For the fields that normalize their token (all
  but the two keys of the combined blood-pressure rule): a malformed token, that is one
  that is not a decimal numeral, normalizes to \<open>null\<close>, never to zero or an error; a decimal
  numeral normalizes to a number; and a token of value exactly 0 normalizes to the number
  0, which the loop stores under the key of the field, so that the key is present in the
  returned bag. The combined blood-pressure rule captures two runs of digits, which are
  decimal numerals; its \<open>normalize\<close> returns \<open>null\<close> and the loop itself stores
  \<open>round(toNum(m[1]),0)\<close> and \<open>round(toNum(m[2]),0)\<close>, the number 0 for a run of zeros.
\<close>

theorem matched_token_normalization:
  assumes "spec \<in> set FIELD_SPECS" and "key spec \<noteq> Rhythm"
    and "R \<in> set (patterns spec)" and "fst (RegExp_exec R t) = Some mt"
  shows "\<exists>tok. m1 mt = Some tok \<and> tok \<noteq> [] \<and>
           \<not> isl (normalize spec (m1 mt) (m2 mt) bag mt) \<and>
           (\<not> bp_key (key spec) \<longrightarrow>
              (\<not> decimal_literal tok \<longrightarrow> normalize spec (m1 mt) (m2 mt) bag mt = Inr None) \<and>
              (decimal_literal tok \<longrightarrow>
                 (\<exists>x. normalize spec (m1 mt) (m2 mt) bag mt = Inr (Some (Num x)))) \<and>
              (zero_literal tok \<longrightarrow>
                 normalize spec (m1 mt) (m2 mt) bag mt = Inr (Some (Num (Fin False 0))) \<and>
                 (\<exists>R'. match_rules spec t (R # rxs) bag =
                          Inr (bag(key spec \<mapsto> Num (Fin False 0)), R' # rxs)) \<and>
                 parsed t [key spec] \<noteq> [None])) \<and>
           (bp_key (key spec) \<longrightarrow>
              (\<exists>tok2 x y R'.
                 m2 mt = Some tok2 \<and> tok2 \<noteq> [] \<and> decimal_literal tok \<and> decimal_literal tok2 \<and>
                 match_rules spec t (R # rxs) bag =
                   Inr (bag(BP_sys \<mapsto> Num x, BP_dia \<mapsto> Num y), R' # rxs) \<and>
                 (zero_literal tok \<longrightarrow> x = Fin False 0) \<and>
                 (zero_literal tok2 \<longrightarrow> y = Fin False 0)))"
proof (cases "bp_key (key spec)")
  case True
  from FIELD_SPECS_BP[OF assms(1) True] assms(3) have R: "R = hd BP_patterns"
    and nz: "normalize spec (m1 mt) (m2 mt) bag mt = Inr None" by simp_all
  from BP_tokens[OF assms(4)[unfolded R]] obtain t1 t2 where
    t: "m1 mt = Some t1" "t1 \<noteq> []" "list_all is_digit t1"
       "m2 mt = Some t2" "t2 \<noteq> []" "list_all is_digit t2" by blast
  from BP_stored[OF True nz assms(4) t, of rxs] obtain x y R' where
    "match_rules spec t (R # rxs) bag = Inr (bag(BP_sys \<mapsto> Num x, BP_dia \<mapsto> Num y), R' # rxs)"
    "zero_literal t1 \<longrightarrow> x = Fin False 0" "zero_literal t2 \<longrightarrow> y = Fin False 0" by blast
  with True nz t digits_decimal(2)[OF t(2,3)] digits_decimal(2)[OF t(5,6)] show ?thesis by auto
next
  case False
  with assms(2) have k: "key spec \<notin> {Rhythm, BP_sys, BP_dia}" by (auto simp: bp_key_def)
  from FIELD_SPECS_token[OF assms(1) k assms(3,4)] obtain tok where
    tok: "m1 mt = Some tok" "numeric_token tok" by blast
  then have ne: "tok \<noteq> []" by (simp add: numeric_token_def)
  let ?n = "\<lambda>b. normalize spec (m1 mt) (m2 mt) b mt"
  have mem: "?n b \<in> {normalize_velocity (m1 mt) (m2 mt), normalize_eprime (m1 mt) (m2 mt),
      normalize_round 0 (m1 mt), normalize_round 1 (m1 mt), normalize_round 2 (m1 mt)}" for b
    by (rule FIELD_SPECS_normalize[OF assms(1) k])
  from FIELD_SPECS_total assms(1) have tot: "\<not> isl (?n bag)"
    by (auto simp: total_normalize_def) (metis sum.disc(2))
  have mal: "?n bag = Inr None" if "\<not> decimal_literal tok"
  proof -
    from toNum_malformed[OF tok(2) that] tok(1)
    have "toNum (m1 mt) = None \<or> toNum (m1 mt) = Some NaN" by simp
    from mem[of bag] normalize_malformed[OF this] show ?thesis by auto
  qed
  have wf: "\<exists>x. ?n bag = Inr (Some (Num x))" if "decimal_literal tok"
  proof -
    from toNum_well_formed[OF tok(2) that] tok(1) obtain z where
      z: "toNum (m1 mt) = Some z" "\<not> isNaN z" by auto
    note w = normalize_well_formed[OF z]
    from mem[of bag] w(1)[of "m2 mt"] w(2)[of "m2 mt"] w(3)[of 0] w(3)[of 1] w(3)[of 2]
    show ?thesis by auto
  qed
  have zero: "?n b = Inr (Some (Num (Fin False 0)))" if "zero_literal tok" for b
  proof -
    from toNum_zero[OF tok(2) that] tok(1) obtain z where
      z: "toNum (m1 mt) = Some z" "is_zero z" by auto
    from mem[of b] normalize_zero[OF z] show ?thesis by auto
  qed
  have stored: "\<exists>R'. match_rules spec t (R # rxs) bag =
      Inr (bag(key spec \<mapsto> Num (Fin False 0)), R' # rxs)" if "zero_literal tok"
    using match_rules_hit[OF assms(4) zero[OF that, of bag]] .
  have present: "parsed t [key spec] \<noteq> [None]" if "zero_literal tok"
    using parsed_present[OF assms(1) False assms(3,4)] zero[OF that] by blast
  from tok(1) ne tot mal wf zero[of bag] stored present False show ?thesis by auto
qed

text \<open>
  In \<open>HR 0 bpm\<close> the token \<open>0\<close> normalizes to 0 and the returned bag has a heart rate of
  0; in \<open>HR . bpm\<close> the token \<open>.\<close> is malformed, normalizes to \<open>null\<close>, and the returned
  bag has no heart rate; in \<open>BP 00/82\<close> the systolic pressure stored is 0.
\<close>

theorem matched_token_normalization_witness:
  "fst (RegExp_exec (hd (patterns (FIELD_SPECS ! 14))) (u16 ''HR 0 bpm'')) =
     Some \<lparr>m0 = u16 ''HR 0 bpm'', m1 = Some (u16 ''0''), m2 = None\<rparr> \<and>
   zero_literal (u16 ''0'') \<and>
   normalize (FIELD_SPECS ! 14) (Some (u16 ''0'')) None Map.empty
     \<lparr>m0 = u16 ''HR 0 bpm'', m1 = Some (u16 ''0''), m2 = None\<rparr> = Inr (Some (Num (Fin False 0))) \<and>
   parsed (u16 ''HR 0 bpm'') [HR_bpm] = [Some (Num (Fin False 0))] \<and>
   fst (RegExp_exec (hd (patterns (FIELD_SPECS ! 14))) (u16 ''HR . bpm'')) =
     Some \<lparr>m0 = u16 ''HR . bpm'', m1 = Some (u16 ''.''), m2 = None\<rparr> \<and>
   decimal_literal (u16 ''.'') = False \<and>
   normalize (FIELD_SPECS ! 14) (Some (u16 ''.'')) None Map.empty
     \<lparr>m0 = u16 ''HR . bpm'', m1 = Some (u16 ''.''), m2 = None\<rparr> = Inr None \<and>
   parsed (u16 ''HR . bpm'') [HR_bpm] = [None] \<and>
   fst (RegExp_exec (hd (patterns (FIELD_SPECS ! 15))) (u16 ''BP 00/82'')) =
     Some \<lparr>m0 = u16 ''BP 00/82'', m1 = Some (u16 ''00''), m2 = Some (u16 ''82'')\<rparr> \<and>
   zero_literal (u16 ''00'') \<and>
   rules_result (FIELD_SPECS ! 15) (u16 ''BP 00/82'') Map.empty [BP_sys] = [Some (Num (Fin False 0))]"
proof -
  have hr: "FIELD_SPECS ! 14 \<in> set FIELD_SPECS" "key (FIELD_SPECS ! 14) \<noteq> Rhythm"
    "hd (patterns (FIELD_SPECS ! 14)) \<in> set (patterns (FIELD_SPECS ! 14))"
    "\<not> bp_key (key (FIELD_SPECS ! 14))"
    by (simp_all add: FIELD_SPECS_def spec_of_def HR_bpm_patterns_def bp_key_def)
  have bp: "FIELD_SPECS ! 15 \<in> set FIELD_SPECS" "key (FIELD_SPECS ! 15) \<noteq> Rhythm"
    "hd (patterns (FIELD_SPECS ! 15)) \<in> set (patterns (FIELD_SPECS ! 15))"
    "bp_key (key (FIELD_SPECS ! 15))"
    "patterns (FIELD_SPECS ! 15) = [hd (patterns (FIELD_SPECS ! 15))]"
    by (simp_all add: FIELD_SPECS_def spec_of_def BP_patterns_def bp_key_def)
  have a: "fst (RegExp_exec (hd (patterns (FIELD_SPECS ! 14))) (u16 ''HR 0 bpm'')) =
     Some \<lparr>m0 = u16 ''HR 0 bpm'', m1 = Some (u16 ''0''), m2 = None\<rparr>" by code_simp
  have b: "fst (RegExp_exec (hd (patterns (FIELD_SPECS ! 14))) (u16 ''HR . bpm'')) =
     Some \<lparr>m0 = u16 ''HR . bpm'', m1 = Some (u16 ''.''), m2 = None\<rparr>" by code_simp
  have c: "fst (RegExp_exec (hd (patterns (FIELD_SPECS ! 15))) (u16 ''BP 00/82'')) =
     Some \<lparr>m0 = u16 ''BP 00/82'', m1 = Some (u16 ''00''), m2 = Some (u16 ''82'')\<rparr>" by code_simp
  have z: "zero_literal (u16 ''0'')" "zero_literal (u16 ''00'')" "decimal_literal (u16 ''.'') = False"
    by code_simp+
  have p: "parsed (u16 ''HR 0 bpm'') [HR_bpm] = [Some (Num (Fin False 0))]"
    "parsed (u16 ''HR . bpm'') [HR_bpm] = [None]" by code_simp+
  from matched_token_normalization[OF hr(1,2,3) a, of Map.empty "[]"] hr(4) z(1)
  have n0: "normalize (FIELD_SPECS ! 14) (Some (u16 ''0'')) None Map.empty
     \<lparr>m0 = u16 ''HR 0 bpm'', m1 = Some (u16 ''0''), m2 = None\<rparr> = Inr (Some (Num (Fin False 0)))"
    by simp
  from matched_token_normalization[OF hr(1,2,3) b, of Map.empty "[]"] hr(4) z(3)
  have n1: "normalize (FIELD_SPECS ! 14) (Some (u16 ''.'')) None Map.empty
     \<lparr>m0 = u16 ''HR . bpm'', m1 = Some (u16 ''.''), m2 = None\<rparr> = Inr None"
    by simp
  from matched_token_normalization[OF bp(1,2,3) c, of Map.empty "[]"] bp(4) z(2)
  obtain x y R' where
    "match_rules (FIELD_SPECS ! 15) (u16 ''BP 00/82'') [hd (patterns (FIELD_SPECS ! 15))] Map.empty =
       Inr (Map.empty(BP_sys \<mapsto> Num x, BP_dia \<mapsto> Num y), [R'])" "x = Fin False 0"
    by auto
  with bp(5) have r: "rules_result (FIELD_SPECS ! 15) (u16 ''BP 00/82'') Map.empty [BP_sys] =
     [Some (Num (Fin False 0))]"
    by (simp add: rules_result_def)
  from a b c z p n0 n1 r show ?thesis by simp
qed

text \<open>
  Claim C5, amended. For every input text and every derived field \<open>k\<close> that divides by
  the field \<open>dk\<close> (the pairs of \<open>zero_guarded\<close>): when no rule matched \<open>k\<close> directly and
  \<open>dk\<close> is zero in the returned bag, \<open>k\<close> is absent from the returned bag. And no value
  in any returned bag is NaN.
\<close>

theorem zero_denominator_leaves_absent_and_no_NaN:
  "((k, dk) \<in> set zero_guarded \<and> matched t [k] = [None] \<and> parsed t [dk] = [Some (Num z)] \<and>
      is_zero z \<longrightarrow> parsed t [k] = [None]) \<and>
   parsed t [k'] \<noteq> [Some (Num NaN)]"
proof -
  from parsed_matched [of t "[k]" "[dk]"] obtain b1 where
    m: "matched t [k] = map b1 [k]" and p: "parsed t [k] = map (pass2 FIELD_SPECS b1) [k]" and
    q: "parsed t [dk] = map (pass2 FIELD_SPECS b1) [dk]"
    by blast
  let ?b = "pass2 FIELD_SPECS b1"
  have "?b k = None"
    if mem: "(k, dk) \<in> set zero_guarded" and a: "b1 k = None" and d: "?b dk = Some (Num z)"
      and z: "is_zero z"
    using mem a d z unfolding zero_guarded_def
    by (auto simp: pass2_EA_ratio [of b1] pass2_E_over_eprime_septal [of b1]
        pass2_E_over_eprime_lateral [of b1] pass2_E_over_eprime_avg [of b1] pass2_LAVI [of b1]
        pass2_LA_stiffness [of b1] spec_ratio_zero)
  with m p q have first: "(k, dk) \<in> set zero_guarded \<and> matched t [k] = [None] \<and>
      parsed t [dk] = [Some (Num z)] \<and> is_zero z \<longrightarrow> parsed t [k] = [None]"
    by simp
  from parsed_matched [of t "[k']" "[k']"] obtain b1' where
    p': "parsed t [k'] = map (pass2 FIELD_SPECS b1') [k']" and n: "no_nan (pass2 FIELD_SPECS b1')"
    by blast
  from n have "pass2 FIELD_SPECS b1' k' \<noteq> Some (Num NaN)" by (simp add: no_nan_def)
  with p' have "parsed t [k'] \<noteq> [Some (Num NaN)]" by simp
  with first show ?thesis by blast
qed

text \<open>
  In \<open>LA volume 60 ml BSA 0 m2\<close> the body surface area is 0 and LAVI stays absent.
\<close>

theorem zero_denominator_leaves_absent_and_no_NaN_witness:
  "(LAVI_ml_m2, BSA_m2) \<in> set zero_guarded \<and>
   matched (u16 ''LA volume 60 ml BSA 0 m2'') [LAVI_ml_m2] = [None] \<and>
   parsed (u16 ''LA volume 60 ml BSA 0 m2'') [BSA_m2] = [Some (Num (Fin False 0))] \<and>
   is_zero (Fin False 0) \<and>
   parsed (u16 ''LA volume 60 ml BSA 0 m2'') [LAVI_ml_m2] = [None] \<and>
   parsed (u16 ''LA volume 60 ml BSA 0 m2'') [LA_volume_ml] \<noteq> [Some (Num NaN)]"
proof -
  have a: "(LAVI_ml_m2, BSA_m2) \<in> set zero_guarded" by (simp add: zero_guarded_def)
  have b: "matched (u16 ''LA volume 60 ml BSA 0 m2'') [LAVI_ml_m2] = [None]" by code_simp
  have c: "parsed (u16 ''LA volume 60 ml BSA 0 m2'') [BSA_m2] = [Some (Num (Fin False 0))]"
    by code_simp
  from zero_denominator_leaves_absent_and_no_NaN
         [of LAVI_ml_m2 BSA_m2 "u16 ''LA volume 60 ml BSA 0 m2''" "Fin False 0" LA_volume_ml] a b c
  show ?thesis by simp
qed

text \<open>
  Claim C5 as stated fails on a report whose LAVI is a numeral of 310 digits: the token
  is beyond the range of a Number, \<open>toNum\<close> reads it as \<open>Infinity\<close>, \<open>round\<close> keeps
  it, and the returned bag holds \<open>Infinity\<close>.
\<close>

theorem huge_token_gives_Infinity:
  "parsed huge_LAVI_report [LAVI_ml_m2] = [Some (Num (Infinity False))]"
  by (rule LAVI_huge_parsed)



text \<open>
  Claim C7. The mitral velocity normalization tests the unit against \<open>/m\/s/i\<close> first,
  and \<open>cm/s\<close> contains \<open>m/s\<close>: the branch that divides by 100 is never reached. On
  \<open>MV E 80 cm/s\<close> the bag holds 80 where \<open>MV E 0.8 m/s\<close> gives 0.8; the tissue-Doppler
  normalization, which tests \<open>cm/s\<close> first, does convert (0.08 m/s is 8).
\<close>

theorem cm_s_token_is_not_converted:
  "parsed (u16 ''MV E 80 cm/s'') [MV_E_m_s] = [Some (Num (Fin False 80))] \<and>
   parsed (u16 ''MV E 0.8 m/s'') [MV_E_m_s] = [Some (Num (to_double False (8 / 10)))] \<and>
   normalize_velocity (Some (u16 ''80'')) (Some (u16 ''cm/s'')) = Inr (Some (Num (Fin False 80))) \<and>
   normalize_eprime (Some (u16 ''0.08'')) (Some (u16 ''m/s'')) = Inr (Some (Num (Fin False 8)))"
  by code_simp

text \<open>
  Claim C8. \<open>parseReport\<close> is a function of the text and of the registry, and the
  RegExp objects of the registry are the only state a call could carry to the next one.
  Every pattern has the flag \<open>i\<close> alone, so \<open>exec\<close> neither reads nor writes
  \<open>lastIndex\<close>: for every text, a call leaves the registry as it was, and a second call
  on the same text returns the same bag.
\<close>

theorem parse_twice_identical: "\<exists>bag. parse_twice t = Some (bag, bag, FIELD_SPECS)"
proof -
  from parse_split [of t] obtain b1 where
    p1: "pass1 FIELD_SPECS t Map.empty = Inr (b1, FIELD_SPECS)" and
    pr: "parseReport t = Inr (pass2 FIELD_SPECS b1, FIELD_SPECS)" by blast
  from pr have "parse_with FIELD_SPECS t = Inr (pass2 FIELD_SPECS b1, FIELD_SPECS)"
    by (simp add: parseReport_def)
  with pr have "parse_twice t = Some (pass2 FIELD_SPECS b1, pass2 FIELD_SPECS b1, FIELD_SPECS)"
    by (simp add: parse_twice_def)
  then show ?thesis by blast
qed

text \<open>
  Under the flag \<open>g\<close> the state would be carried: the heart-rate pattern matches
  \<open>HR 60 bpm\<close> on the first \<open>exec\<close> and not on the second.
\<close>

lemma global_flag_carries_state:
  "fst (RegExp_exec global_HR_pattern (u16 ''HR 60 bpm'')) \<noteq> None \<and>
   fst (RegExp_exec (snd (RegExp_exec global_HR_pattern (u16 ''HR 60 bpm''))) (u16 ''HR 60 bpm'')) = None"
  by code_simp

text \<open>
  Claim C9. For \<open>BP 128/82 mmHg\<close> the returned bag has \<open>BP_sys\<close> 128 and \<open>BP_dia\<close> 82.
  The entry of \<open>BP_sys\<close> (the sixteenth of the registry) matches with the captures
  \<open>128\<close> and \<open>82\<close>, its \<open>normalize\<close> returns \<open>null\<close>, and its rule alone, run on the empty
  bag, sets both keys.
\<close>

theorem BP_dual_capture:
  "parsed (u16 ''BP 128/82 mmHg'') [BP_sys, BP_dia] =
     [Some (Num (Fin False 128)), Some (Num (Fin False 82))] \<and>
   key (FIELD_SPECS ! 15) = BP_sys \<and>
   fst (RegExp_exec (hd (patterns (FIELD_SPECS ! 15))) (u16 ''BP 128/82 mmHg'')) =
     Some \<lparr>m0 = u16 ''BP 128/82'', m1 = Some (u16 ''128''), m2 = Some (u16 ''82'')\<rparr> \<and>
   normalize (FIELD_SPECS ! 15) (Some (u16 ''128'')) (Some (u16 ''82'')) Map.empty
     \<lparr>m0 = u16 ''BP 128/82'', m1 = Some (u16 ''128''), m2 = Some (u16 ''82'')\<rparr> = Inr None \<and>
   rules_result (FIELD_SPECS ! 15) (u16 ''BP 128/82 mmHg'') Map.empty [BP_sys, BP_dia] =
     [Some (Num (Fin False 128)), Some (Num (Fin False 82))]"
  by code_simp

text \<open>
  Claim C10. For every input text, the first pass leaves \<open>LA_stiffness_index\<close> absent
  (it has no rule); and when the returned bag holds a value for it, the bag holds numbers
  for \<open>E_over_eprime_avg\<close> and \<open>LA_reservoir_strain_pct\<close>, the strain is not zero, and
  the value is their quotient rounded to 2 decimals.
\<close>

theorem LA_stiffness_only_derived:
  "matched t [LA_stiffness_index] = [None] \<and>
   (parsed t [LA_stiffness_index] = [Some v] \<longrightarrow>
      (\<exists>e l. parsed t [E_over_eprime_avg, LA_reservoir_strain_pct] = [Some (Num e), Some (Num l)] \<and>
             \<not> is_zero l \<and> \<not> isNaN (js_div e l) \<and> v = Num (toFixed_num (js_div e l) 2)))"
proof -
  from parsed_matched [of t "[LA_stiffness_index]" "[E_over_eprime_avg, LA_reservoir_strain_pct]"]
  obtain b1 where
    m: "matched t [LA_stiffness_index] = map b1 [LA_stiffness_index]" and
    p: "parsed t [LA_stiffness_index] = map (pass2 FIELD_SPECS b1) [LA_stiffness_index]" and
    q: "parsed t [E_over_eprime_avg, LA_reservoir_strain_pct] =
          map (pass2 FIELD_SPECS b1) [E_over_eprime_avg, LA_reservoir_strain_pct]" and
    a: "b1 LA_stiffness_index = None"
    by blast
  let ?b = "pass2 FIELD_SPECS b1"
  have f: "?b LA_stiffness_index = spec_ratio 2 (?b E_over_eprime_avg) (?b LA_reservoir_strain_pct)"
    using a by (simp add: pass2_LA_stiffness [of b1])
  have "\<exists>e l. ?b E_over_eprime_avg = Some (Num e) \<and> ?b LA_reservoir_strain_pct = Some (Num l) \<and>
          \<not> is_zero l \<and> \<not> isNaN (js_div e l) \<and> v = Num (toFixed_num (js_div e l) 2)"
    if "?b LA_stiffness_index = Some v"
    using that unfolding f
    by (auto simp: spec_ratio_def rounded_def split: option.splits jsval.splits if_splits)
  with m p q a show ?thesis by simp
qed

text \<open>
  In \<open>E/e' avg 10 LA LARS 25%\<close> the index is derived as 10 \<open>\<div>\<close> 25 = 0.4.
\<close>

theorem LA_stiffness_only_derived_witness:
  "matched (u16 ''E/e' avg 10 LA LARS 25%'') [LA_stiffness_index] = [None] \<and>
   parsed (u16 ''E/e' avg 10 LA LARS 25%'') [LA_stiffness_index] =
     [Some (Num (to_double False (4 / 10)))] \<and>
   (\<exists>e l. parsed (u16 ''E/e' avg 10 LA LARS 25%'') [E_over_eprime_avg, LA_reservoir_strain_pct] =
            [Some (Num e), Some (Num l)] \<and>
          \<not> is_zero l \<and> \<not> isNaN (js_div e l) \<and>
          Num (to_double False (4 / 10)) = Num (toFixed_num (js_div e l) 2))"
proof -
  have h: "parsed (u16 ''E/e' avg 10 LA LARS 25%'') [LA_stiffness_index] =
             [Some (Num (to_double False (4 / 10)))]"
    by code_simp
  from LA_stiffness_only_derived [of "u16 ''E/e' avg 10 LA LARS 25%''" "Num (to_double False (4 / 10))"] h
  show ?thesis by simp
qed

end
